theory Spec2Isabelle
  imports Complex_Main
begin

section \<open>Common data: Python values, keyword arguments, errors\<close>

text \<open>
  The repository is two Python modules: \<^verbatim>\<open>rutils/base/fileio.py\<close> (load and save
  helpers on top of \<^verbatim>\<open>os\<close>, \<^verbatim>\<open>json\<close>, \<^verbatim>\<open>pickle\<close>, \<^verbatim>\<open>msgpack\<close>, \<^verbatim>\<open>pandas\<close> and
  \<^verbatim>\<open>hashlib\<close>) and \<^verbatim>\<open>rutils/base/mplhelper.py\<close> (annotation helpers on top of
  matplotlib). Exceptions are values of \<open>error\<close>; a function that can raise returns
  \<open>error + 'a\<close> with \<open>Inl\<close> for the exception. A result \<open>Inl e\<close> does not report the
  state the exception left behind.

  Python floats are modelled as \<open>real\<close>: comparisons are exact, rounding of the
  arithmetic and the value NaN are not modelled.
\<close>

datatype error =
    FileNotFoundError
  | FileExistsError
  | NotADirectoryError
  | IsADirectoryError
  | KeyError
  | TypeError
  | ValueError

datatype pyval = PStr string | PNum real | PBool bool | PNone

type_synonym kwargs = "string \<rightharpoonup> pyval"

section \<open>mplhelper: the plotting state\<close>

text \<open>
  An \<open>Axes\<close> object is a record of what the helpers read and write: the y-limits, and the
  calls to \<^verbatim>\<open>ax.text\<close> and \<^verbatim>\<open>ax.annotate\<close> it has received, oldest first. Axes are
  objects held by reference, so the state \<open>pyplot\<close> is a store from object identities
  to records, together with the identity \<^verbatim>\<open>plt.gca()\<close> returns.
\<close>

record text_call =
  t_x :: real
  t_y :: real
  t_s :: string
  t_ha :: string
  t_va :: string
  t_kwargs :: kwargs

record annotate_call =
  a_s :: string
  a_xy :: "real \<times> real"
  a_kwargs :: kwargs

record axes =
  ylim :: "real \<times> real"
  texts :: "text_call list"
  annotations :: "annotate_call list"

record pyplot =
  gca :: nat
  axes_of :: "nat \<Rightarrow> axes"

record rect =
  rect_x :: real
  rect_width :: real
  rect_height :: real

definition get_ylim :: "nat \<Rightarrow> pyplot \<Rightarrow> real \<times> real" where
  "get_ylim ax plt = ylim (axes_of plt ax)"

definition set_ylim :: "nat \<Rightarrow> real \<Rightarrow> real \<Rightarrow> pyplot \<Rightarrow> pyplot" where
  "set_ylim ax ybottom ytop plt =
     plt\<lparr>axes_of := (axes_of plt)(ax := (axes_of plt ax)\<lparr>ylim := (ybottom, ytop)\<rparr>)\<rparr>"

definition ax_text :: "nat \<Rightarrow> text_call \<Rightarrow> pyplot \<Rightarrow> pyplot" where
  "ax_text ax t plt =
     plt\<lparr>axes_of := (axes_of plt)(ax := (axes_of plt ax)\<lparr>texts := texts (axes_of plt ax) @ [t]\<rparr>)\<rparr>"

definition ax_annotate :: "nat \<Rightarrow> annotate_call \<Rightarrow> pyplot \<Rightarrow> pyplot" where
  "ax_annotate ax a plt =
     plt\<lparr>axes_of := (axes_of plt)(ax := (axes_of plt ax)
        \<lparr>annotations := annotations (axes_of plt ax) @ [a]\<rparr>)\<rparr>"

subsection \<open>autotext\<close>

text \<open>
  \<^verbatim>\<open>autotext(x, y, s, ax=None, **kwargs)\<close>. The dictionary \<^verbatim>\<open>text_kw\<close> is built from the
  automatic alignment and then updated with the caller's \<^verbatim>\<open>kwargs\<close> (\<open>++\<close> is
  \<^verbatim>\<open>dict.update\<close>: the right operand wins). The call
  \<^verbatim>\<open>ax.annotate(s, xy=(x, y), **text_kw)\<close> raises TypeError when \<^verbatim>\<open>text_kw\<close> has the key
  \<^verbatim>\<open>xy\<close> as well.
\<close>

definition autotext_kw :: "real \<Rightarrow> real \<Rightarrow> kwargs \<Rightarrow> kwargs" where
  "autotext_kw x y kwargs =
     (let ha = (if x = 0.5 then ''center'' else (if x < 0.5 then ''left'' else ''right''));
          va = (if y = 0.5 then ''center'' else (if y < 0.5 then ''bottom'' else ''top''));
          text_kw = [''xycoords'' \<mapsto> PStr ''axes fraction'', ''ha'' \<mapsto> PStr ha,
                     ''va'' \<mapsto> PStr va]
      in text_kw ++ kwargs)"

definition autotext ::
  "real \<Rightarrow> real \<Rightarrow> string \<Rightarrow> nat option \<Rightarrow> kwargs \<Rightarrow> pyplot \<Rightarrow> error + pyplot" where
  "autotext x y s ax kwargs plt =
     (let ax = (case ax of None \<Rightarrow> gca plt | Some a \<Rightarrow> a);
          text_kw = autotext_kw x y kwargs
      in if text_kw ''xy'' \<noteq> None then Inl TypeError
         else Inr (ax_annotate ax \<lparr>a_s = s, a_xy = (x, y), a_kwargs = text_kw\<rparr> plt))"

subsection \<open>autolabel\<close>

text \<open>
  \<^verbatim>\<open>xpos.lower()\<close> on the ASCII letters; every other character is left as it is.
\<close>

definition char_lower :: "char \<Rightarrow> char" where
  "char_lower c =
     (case map_of (zip ''ABCDEFGHIJKLMNOPQRSTUVWXYZ'' ''abcdefghijklmnopqrstuvwxyz'') c of
        Some d \<Rightarrow> d
      | None \<Rightarrow> c)"

definition str_lower :: "string \<Rightarrow> string" where
  "str_lower s = map char_lower s"

definition ha_tab :: "string \<rightharpoonup> string" where
  "ha_tab = [''center'' \<mapsto> ''center'', ''right'' \<mapsto> ''left'', ''left'' \<mapsto> ''right'']"

definition offset_tab :: "string \<rightharpoonup> real" where
  "offset_tab = [''center'' \<mapsto> 0.5, ''right'' \<mapsto> 0.57, ''left'' \<mapsto> 0.43]"

text \<open>
  The body of the loop \<^verbatim>\<open>for rect in rects\<close>, for one bar. \<open>fmt formatstr v\<close> stands for
  \<^verbatim>\<open>formatstr.format(v)\<close>, which is Python's and may raise. \<open>ylim\<close> is \<open>None\<close> for
  Python's \<^verbatim>\<open>None\<close> and \<open>Some (lo, hi)\<close> for a pair, which is truthy. The two clamps
  assign to \<^verbatim>\<open>height\<close> itself, and the second one reads the value the first one left.
  \<^verbatim>\<open>ax.text(x, y, ..., ha=ha[xpos], va=va, **kwargs)\<close> raises TypeError when \<^verbatim>\<open>kwargs\<close>
  has \<^verbatim>\<open>ha\<close> or \<^verbatim>\<open>va\<close>.
\<close>

definition autolabel_rect ::
  "(string \<Rightarrow> real \<Rightarrow> error + string) \<Rightarrow> string \<Rightarrow> string \<Rightarrow> (real \<times> real) option \<Rightarrow>
     kwargs \<Rightarrow> rect \<Rightarrow> error + text_call" where
  "autolabel_rect fmt xpos formatstr yl kwargs r =
     (let height = rect_height r;
          va = (if height \<ge> 0 then ''bottom'' else ''top'');
          (height, va) = (case yl of
                            Some (lo, hi) \<Rightarrow> if height < lo then (lo, ''bottom'') else (height, va)
                          | None \<Rightarrow> (height, va));
          (height, va) = (case yl of
                            Some (lo, hi) \<Rightarrow> if hi < height then (hi, ''top'') else (height, va)
                          | None \<Rightarrow> (height, va))
      in case offset_tab xpos of
           None \<Rightarrow> Inl KeyError
         | Some off \<Rightarrow>
             (let x = rect_x r + rect_width r * off;
                  y = height
              in case fmt formatstr height of
                   Inl e \<Rightarrow> Inl e
                 | Inr s \<Rightarrow>
                     (case ha_tab xpos of
                        None \<Rightarrow> Inl KeyError
                      | Some ha \<Rightarrow>
                          if kwargs ''ha'' \<noteq> None \<or> kwargs ''va'' \<noteq> None then Inl TypeError
                          else Inr \<lparr>t_x = x, t_y = y, t_s = s, t_ha = ha, t_va = va,
                                    t_kwargs = kwargs\<rparr>)))"

fun autolabel_rects ::
  "(rect \<Rightarrow> error + text_call) \<Rightarrow> nat \<Rightarrow> rect list \<Rightarrow> pyplot \<Rightarrow> error + pyplot" where
  "autolabel_rects body ax [] plt = Inr plt"
| "autolabel_rects body ax (r # rects) plt =
     (case body r of
        Inl e \<Rightarrow> Inl e
      | Inr t \<Rightarrow> autolabel_rects body ax rects (ax_text ax t plt))"

definition autolabel ::
  "(string \<Rightarrow> real \<Rightarrow> error + string) \<Rightarrow> rect list \<Rightarrow> string \<Rightarrow> string \<Rightarrow> nat option \<Rightarrow>
     (real \<times> real) option \<Rightarrow> kwargs \<Rightarrow> pyplot \<Rightarrow> error + pyplot" where
  "autolabel fmt rects xpos formatstr ax yl kwargs plt =
     (let xpos = str_lower xpos;
          ax = (case ax of None \<Rightarrow> gca plt | Some a \<Rightarrow> a)
      in autolabel_rects (autolabel_rect fmt xpos formatstr yl kwargs) ax rects plt)"

text \<open>
  A formatter for closed examples: the default template \<^verbatim>\<open>'{}'\<close> on whole numbers,
  which prints the decimal digits as \<^verbatim>\<open>str\<close> does for an \<^verbatim>\<open>int\<close>.
\<close>

definition digit_char :: "nat \<Rightarrow> char" where
  "digit_char d = ''0123456789'' ! d"

fun str_nat :: "nat \<Rightarrow> string" where
  "str_nat n = (if n < 10 then [digit_char n] else str_nat (n div 10) @ [digit_char (n mod 10)])"

declare str_nat.simps [simp del]

definition str_int :: "int \<Rightarrow> string" where
  "str_int i = (if i < 0 then CHR ''-'' # str_nat (nat (- i)) else str_nat (nat i))"

definition format_whole :: "string \<Rightarrow> real \<Rightarrow> error + string" where
  "format_whole formatstr v =
     (if formatstr = ''{}'' \<and> v = of_int \<lfloor>v\<rfloor> then Inr (str_int \<lfloor>v\<rfloor>) else Inl ValueError)"

subsection \<open>set_ylim_symm, set_sharey_symm\<close>

definition set_ylim_symm :: "nat \<Rightarrow> pyplot \<Rightarrow> pyplot" where
  "set_ylim_symm ax plt =
     (let (yb, yt) = get_ylim ax plt;
          yabsmax = max \<bar>yb\<bar> \<bar>yt\<bar>
      in set_ylim ax (- yabsmax) yabsmax plt)"

text \<open>The two loops of \<^verbatim>\<open>set_sharey_symm\<close>: the first reads, the second writes.\<close>

fun sharey_yabsmax :: "nat list \<Rightarrow> pyplot \<Rightarrow> real \<Rightarrow> real" where
  "sharey_yabsmax [] plt yabsmax = yabsmax"
| "sharey_yabsmax (ax # axs) plt yabsmax =
     (let (yb, yt) = get_ylim ax plt
      in sharey_yabsmax axs plt (max (max \<bar>yb\<bar> \<bar>yt\<bar>) yabsmax))"

fun sharey_apply :: "nat list \<Rightarrow> real \<Rightarrow> pyplot \<Rightarrow> pyplot" where
  "sharey_apply [] yabsmax plt = plt"
| "sharey_apply (ax # axs) yabsmax plt = sharey_apply axs yabsmax (set_ylim ax (- yabsmax) yabsmax plt)"

definition set_sharey_symm :: "nat list \<Rightarrow> pyplot \<Rightarrow> pyplot" where
  "set_sharey_symm axs plt =
     (let yabsmax = sharey_yabsmax axs plt 0
      in sharey_apply axs yabsmax plt)"

section \<open>fileio: paths and the file system\<close>

text \<open>
  The functions of \<^verbatim>\<open>fileio.py\<close> act on the file system through \<^verbatim>\<open>os\<close> and \<^verbatim>\<open>open\<close>.
  The model is a POSIX file system without symbolic links, permissions or other
  processes: a partial map from absolute locations (the list of names from the root
  \<open>[]\<close>) to nodes, and the current directory. A regular file holds its content.
\<close>

type_synonym loc = "string list"

datatype node = Dir | File string

record filesystem =
  nodes :: "loc \<Rightarrow> node option"
  cwd :: loc

text \<open>\<^verbatim>\<open>p.split('/')\<close>: the pieces between the separators, empty ones included.\<close>

fun split_sep :: "string \<Rightarrow> string list" where
  "split_sep [] = [[]]"
| "split_sep (c # cs) =
     (if c = CHR ''/'' then [] # split_sep cs
      else (case split_sep cs of [] \<Rightarrow> [[c]] | x # xs \<Rightarrow> (c # x) # xs))"

text \<open>\<^verbatim>\<open>'/'.join(comps)\<close>.\<close>

fun join_sep :: "string list \<Rightarrow> string" where
  "join_sep [] = []"
| "join_sep [x] = x"
| "join_sep (x # y # ys) = x @ CHR ''/'' # join_sep (y # ys)"

text \<open>
  \<^verbatim>\<open>posixpath.normpath\<close>: the loop over the components keeps a stack \<^verbatim>\<open>new_comps\<close>;
  empty components and \<^verbatim>\<open>.\<close> are dropped, \<^verbatim>\<open>..\<close> pops a name, stays at the front of
  a relative path and is dropped at the root.
\<close>

definition normpath_step :: "nat \<Rightarrow> string list \<Rightarrow> string \<Rightarrow> string list" where
  "normpath_step initial_slashes new_comps c =
     (if c = [] \<or> c = ''.'' then new_comps
      else if c \<noteq> ''..'' \<or> (initial_slashes = 0 \<and> new_comps = []) \<or>
              (new_comps \<noteq> [] \<and> last new_comps = ''..'')
           then new_comps @ [c]
      else if new_comps \<noteq> [] then butlast new_comps
      else new_comps)"

definition normpath :: "string \<Rightarrow> string" where
  "normpath path =
     (if path = [] then ''.''
      else
        let initial_slashes =
              (if take 1 path = ''/''
               then (if take 2 path = ''//'' \<and> take 3 path \<noteq> ''///'' then 2 else 1)
               else (0::nat));
            comps = split_sep path;
            new_comps = foldl (normpath_step initial_slashes) [] comps;
            path = join_sep new_comps;
            path = (if initial_slashes \<noteq> 0 then replicate initial_slashes CHR ''/'' @ path
                    else path)
        in if path = [] then ''.'' else path)"

text \<open>
  \<^verbatim>\<open>posixpath.dirname\<close>: everything up to and including the last separator, with the
  trailing separators stripped unless nothing else is left.
\<close>

definition dirname :: "string \<Rightarrow> string" where
  "dirname p =
     (let head = rev (dropWhile (\<lambda>c. c \<noteq> CHR ''/'') (rev p))
      in if head \<noteq> [] \<and> head \<noteq> replicate (length head) CHR ''/''
         then rev (dropWhile (\<lambda>c. c = CHR ''/'') (rev head))
         else head)"

text \<open>
  Path resolution as the kernel does it: component by component, and every directory
  passed through must exist as a directory. The walk returns the location the path
  names, which need not exist. The empty path names nothing.
\<close>

fun walk :: "(loc \<Rightarrow> node option) \<Rightarrow> loc \<Rightarrow> string list \<Rightarrow> error + loc" where
  "walk t cur [] = Inr cur"
| "walk t cur (c # cs) =
     (case t cur of
        None \<Rightarrow> Inl FileNotFoundError
      | Some (File _) \<Rightarrow> Inl NotADirectoryError
      | Some Dir \<Rightarrow>
          if c = [] \<or> c = ''.'' then walk t cur cs
          else if c = ''..'' then walk t (butlast cur) cs
          else walk t (cur @ [c]) cs)"

definition start_of :: "filesystem \<Rightarrow> string \<Rightarrow> loc" where
  "start_of fs p = (if take 1 p = ''/'' then [] else cwd fs)"

definition resolve :: "filesystem \<Rightarrow> string \<Rightarrow> error + loc" where
  "resolve fs p =
     (if p = [] then Inl FileNotFoundError
      else walk (nodes fs) (start_of fs p) (split_sep p))"

definition isdir :: "filesystem \<Rightarrow> string \<Rightarrow> bool" where
  "isdir fs p = (case resolve fs p of Inl e \<Rightarrow> False | Inr l \<Rightarrow> nodes fs l = Some Dir)"

text \<open>
  \<^verbatim>\<open>os.makedirs(name, exist_ok=True)\<close>: every directory on the way that is missing is
  created; one that exists is passed through; a regular file in the way is an error
  (FileExistsError for the last name, NotADirectoryError before it). The empty name is
  refused by \<^verbatim>\<open>mkdir\<close> with FileNotFoundError, and \<^verbatim>\<open>exist_ok\<close> does not cover that:
  \<^verbatim>\<open>os.path.isdir('')\<close> is false.
\<close>

fun mkdirs_walk :: "(loc \<Rightarrow> node option) \<Rightarrow> loc \<Rightarrow> string list \<Rightarrow> error + (loc \<Rightarrow> node option)" where
  "mkdirs_walk t cur [] =
     (case t cur of
        None \<Rightarrow> Inl FileNotFoundError
      | Some (File _) \<Rightarrow> Inl FileExistsError
      | Some Dir \<Rightarrow> Inr t)"
| "mkdirs_walk t cur (c # cs) =
     (case t cur of
        None \<Rightarrow> Inl FileNotFoundError
      | Some (File _) \<Rightarrow> Inl NotADirectoryError
      | Some Dir \<Rightarrow>
          if c = [] \<or> c = ''.'' then mkdirs_walk t cur cs
          else if c = ''..'' then mkdirs_walk t (butlast cur) cs
          else (case t (cur @ [c]) of
                  None \<Rightarrow> mkdirs_walk (t(cur @ [c] \<mapsto> Dir)) (cur @ [c]) cs
                | Some n \<Rightarrow> mkdirs_walk t (cur @ [c]) cs))"

definition makedirs_exist_ok :: "string \<Rightarrow> filesystem \<Rightarrow> error + filesystem" where
  "makedirs_exist_ok name fs =
     (if name = [] then Inl FileNotFoundError
      else case mkdirs_walk (nodes fs) (start_of fs name) (split_sep name) of
             Inl e \<Rightarrow> Inl e
           | Inr t \<Rightarrow> Inr (fs\<lparr>nodes := t\<rparr>))"

text \<open>
  \<^verbatim>\<open>open(filename, 'w')\<close> (and \<^verbatim>\<open>'wb'\<close>) resolves the name and fails on a directory; the
  file is created or truncated, and the content written replaces it.
  \<^verbatim>\<open>open(filename)\<close> (and \<^verbatim>\<open>'rb'\<close>) gives the content of a regular file. Text and binary
  files are both strings of bytes; the text encoding is not modelled.
\<close>

definition open_w :: "string \<Rightarrow> filesystem \<Rightarrow> error + loc" where
  "open_w filename fs =
     (case resolve fs filename of
        Inl e \<Rightarrow> Inl e
      | Inr l \<Rightarrow> (case nodes fs l of Some Dir \<Rightarrow> Inl IsADirectoryError | _ \<Rightarrow> Inr l))"

definition put_file :: "loc \<Rightarrow> string \<Rightarrow> filesystem \<Rightarrow> filesystem" where
  "put_file l content fs = fs\<lparr>nodes := (nodes fs)(l \<mapsto> File content)\<rparr>"

definition open_r :: "string \<Rightarrow> filesystem \<Rightarrow> error + string" where
  "open_r filename fs =
     (case resolve fs filename of
        Inl e \<Rightarrow> Inl e
      | Inr l \<Rightarrow> (case nodes fs l of
                    None \<Rightarrow> Inl FileNotFoundError
                  | Some Dir \<Rightarrow> Inl IsADirectoryError
                  | Some (File content) \<Rightarrow> Inr content))"

subsection \<open>Predicates on paths\<close>

text \<open>
  Three notions used to say which destinations a save can reach; they are not code of
  the program and appear only in the statements about it. \<open>lex_walk cur cs\<close> is the
  location the components \<open>cs\<close> name from \<open>cur\<close> when they are applied in turn without
  looking at the file system. \<open>dotdot_dirs t cur cs\<close> holds when every \<^verbatim>\<open>..\<close> among the
  components is applied at a location that is a directory in \<open>t\<close>: the kernel resolves
  \<^verbatim>\<open>..\<close> at that directory, while \<^verbatim>\<open>normpath\<close> cancels it against the name before it
  without looking. \<open>is_name\<close> holds of a component that names an entry of a directory:
  it is not empty, not \<^verbatim>\<open>.\<close> and not \<^verbatim>\<open>..\<close>.
\<close>

fun lex_walk :: "loc \<Rightarrow> string list \<Rightarrow> loc" where
  "lex_walk cur [] = cur"
| "lex_walk cur (c # cs) =
     (if c = [] \<or> c = ''.'' then lex_walk cur cs
      else if c = ''..'' then lex_walk (butlast cur) cs
      else lex_walk (cur @ [c]) cs)"

fun dotdot_dirs :: "(loc \<Rightarrow> node option) \<Rightarrow> loc \<Rightarrow> string list \<Rightarrow> bool" where
  "dotdot_dirs t cur [] = True"
| "dotdot_dirs t cur (c # cs) =
     (if c = [] \<or> c = ''.'' then dotdot_dirs t cur cs
      else if c = ''..'' then t cur = Some Dir \<and> dotdot_dirs t (butlast cur) cs
      else dotdot_dirs t (cur @ [c]) cs)"


section \<open>fileio: the functions\<close>

definition make_parent_dir :: "string \<Rightarrow> filesystem \<Rightarrow> error + filesystem" where
  "make_parent_dir path fs =
     (let parent_dir = dirname (normpath path)
      in makedirs_exist_ok parent_dir fs)"

text \<open>
  The body of every \<^verbatim>\<open>with open(filename, 'w') as f\<close> block: the file is opened first,
  then the serializer produces the content (or raises), which is written.
\<close>

definition with_open_w :: "string \<Rightarrow> (error + string) \<Rightarrow> filesystem \<Rightarrow> error + filesystem" where
  "with_open_w filename produce fs =
     (case open_w filename fs of
        Inl e \<Rightarrow> Inl e
      | Inr f \<Rightarrow> (case produce of Inl e \<Rightarrow> Inl e | Inr content \<Rightarrow> Inr (put_file f content fs)))"

definition with_open_r :: "string \<Rightarrow> (string \<Rightarrow> error + 'a) \<Rightarrow> filesystem \<Rightarrow> error + 'a" where
  "with_open_r filename consume fs =
     (case open_r filename fs of Inl e \<Rightarrow> Inl e | Inr content \<Rightarrow> consume content)"

text \<open>\<^verbatim>\<open>write(out, filename)\<close>.\<close>

definition write_text :: "string \<Rightarrow> string \<Rightarrow> filesystem \<Rightarrow> error + filesystem" where
  "write_text out filename fs =
     (case make_parent_dir filename fs of
        Inl e \<Rightarrow> Inl e
      | Inr fs \<Rightarrow> with_open_w filename (Inr out) fs)"

text \<open>
  The serializers are the libraries' and are parameters: \<open>dumps kw v\<close> is the text or the
  bytes \<^verbatim>\<open>json.dump\<close>, \<^verbatim>\<open>pickle.dump\<close>, \<^verbatim>\<open>msgpack.pack\<close> or \<^verbatim>\<open>DataFrame.to_csv\<close> write for
  \<open>v\<close> under the keyword arguments \<open>kw\<close>, and \<open>loads\<close> is what \<^verbatim>\<open>json.load\<close>,
  \<^verbatim>\<open>pickle.load\<close>, \<^verbatim>\<open>msgpack.unpack\<close> or \<^verbatim>\<open>pandas.read_csv\<close> make of a file's content.
\<close>

definition json_load :: "(string \<Rightarrow> error + 'v) \<Rightarrow> string \<Rightarrow> filesystem \<Rightarrow> error + 'v" where
  "json_load loads filename fs = with_open_r filename loads fs"

definition json_dump ::
  "(kwargs \<Rightarrow> 'v \<Rightarrow> error + string) \<Rightarrow> 'v \<Rightarrow> string \<Rightarrow> kwargs \<Rightarrow> filesystem \<Rightarrow> error + filesystem" where
  "json_dump dumps data filename kw fs =
     (case make_parent_dir filename fs of
        Inl e \<Rightarrow> Inl e
      | Inr fs \<Rightarrow> with_open_w filename (dumps kw data) fs)"

definition read_tsv ::
  "(kwargs \<Rightarrow> string \<Rightarrow> error + 'df) \<Rightarrow> string \<Rightarrow> kwargs \<Rightarrow> filesystem \<Rightarrow> error + 'df" where
  "read_tsv read_csv filename kw fs =
     (let kw' = [''sep'' \<mapsto> PStr [CHR 0x09], ''header'' \<mapsto> PNum 0];
          kw' = kw' ++ kw
      in with_open_r filename (read_csv kw') fs)"

definition to_tsv ::
  "(kwargs \<Rightarrow> 'df \<Rightarrow> error + string) \<Rightarrow> 'df \<Rightarrow> string \<Rightarrow> kwargs \<Rightarrow> filesystem \<Rightarrow> error + filesystem" where
  "to_tsv to_csv df filename kw fs =
     (case make_parent_dir filename fs of
        Inl e \<Rightarrow> Inl e
      | Inr fs \<Rightarrow>
          (let kw' = [''sep'' \<mapsto> PStr [CHR 0x09], ''index'' \<mapsto> PBool False];
               kw' = kw' ++ kw
           in with_open_w filename (to_csv kw' df) fs))"

definition pickle_load :: "(string \<Rightarrow> error + 'v) \<Rightarrow> string \<Rightarrow> filesystem \<Rightarrow> error + 'v" where
  "pickle_load loads filename fs = with_open_r filename loads fs"

definition pickle_dump ::
  "(kwargs \<Rightarrow> 'v \<Rightarrow> error + string) \<Rightarrow> 'v \<Rightarrow> string \<Rightarrow> kwargs \<Rightarrow> filesystem \<Rightarrow> error + filesystem" where
  "pickle_dump dumps obj filename kw fs =
     (case make_parent_dir filename fs of
        Inl e \<Rightarrow> Inl e
      | Inr fs \<Rightarrow> with_open_w filename (dumps kw obj) fs)"

definition pack_msgpack ::
  "('v \<Rightarrow> error + string) \<Rightarrow> 'v \<Rightarrow> string \<Rightarrow> filesystem \<Rightarrow> error + filesystem" where
  "pack_msgpack packb obj filename fs =
     (case make_parent_dir filename fs of
        Inl e \<Rightarrow> Inl e
      | Inr fs \<Rightarrow> with_open_w filename (packb obj) fs)"

definition unpack_msgpack :: "(string \<Rightarrow> error + 'v) \<Rightarrow> string \<Rightarrow> filesystem \<Rightarrow> error + 'v" where
  "unpack_msgpack unpackb filename fs = with_open_r filename unpackb fs"

subsection \<open>md5\<close>

text \<open>
  A \<^verbatim>\<open>hashlib\<close> hash object is what has been fed to it: \<^verbatim>\<open>update\<close> appends, as the
  library documents (repeated calls are equivalent to a single call with the
  concatenation), and \<^verbatim>\<open>hexdigest\<close> is the digest of all of it in lowercase
  hexadecimal. The digest function itself (\<open>digest\<close>, MD5) is a parameter.
  An open file is the bytes not read yet; \<^verbatim>\<open>f.read(n)\<close> takes up to \<open>n\<close> of them.
\<close>

definition hash_new :: string where
  "hash_new = []"

definition hash_update :: "string \<Rightarrow> string \<Rightarrow> string" where
  "hash_update h chunk = h @ chunk"

definition hex_digit :: "nat \<Rightarrow> char" where
  "hex_digit d = ''0123456789abcdef'' ! d"

definition hex_byte :: "char \<Rightarrow> string" where
  "hex_byte c = [hex_digit (of_char c div 16), hex_digit (of_char c mod 16)]"

definition hash_hexdigest :: "(string \<Rightarrow> string) \<Rightarrow> string \<Rightarrow> string" where
  "hash_hexdigest digest h = concat (map hex_byte (digest h))"

definition f_read :: "nat \<Rightarrow> string \<Rightarrow> string \<times> string" where
  "f_read n f = (take n f, drop n f)"

text \<open>The loop \<^verbatim>\<open>for chunk in iter(lambda: f.read(4096), b'')\<close>.\<close>

function md5_chunks :: "string \<Rightarrow> string \<Rightarrow> string" where
  "md5_chunks hash_md5 f =
     (case f_read 4096 f of
        (chunk, f') \<Rightarrow> if chunk = [] then hash_md5 else md5_chunks (hash_update hash_md5 chunk) f')"
  by pat_completeness auto
termination
  by (relation "measure (\<lambda>(h, f). length f)") (auto simp: f_read_def)

declare md5_chunks.simps [simp del]

definition md5 :: "(string \<Rightarrow> string) \<Rightarrow> string \<Rightarrow> filesystem \<Rightarrow> error + string" where
  "md5 digest filename fs =
     (let hash_md5 = hash_new
      in with_open_r filename (\<lambda>f. Inr (hash_hexdigest digest (md5_chunks hash_md5 f))) fs)"

section \<open>mplhelper: savefig\<close>



section \<open>Example inputs\<close>

text \<open>Concrete states and arguments on which the theorems below are exercised.\<close>

definition plt0 :: pyplot where
  "plt0 = \<lparr>gca = 0, axes_of = (\<lambda>_. \<lparr>ylim = (0, 1), texts = [], annotations = []\<rparr>)\<rparr>"

definition two_panels :: pyplot where
  "two_panels = \<lparr>gca = 0, axes_of = (\<lambda>i. \<lparr>ylim = (if i = 0 then (- 2, 5) else (- 7, 3)),
       texts = [], annotations = []\<rparr>)\<rparr>"

definition bar15 :: rect where
  "bar15 = \<lparr>rect_x = 0, rect_width = 1, rect_height = 15\<rparr>"

definition bar_neg5 :: rect where
  "bar_neg5 = \<lparr>rect_x = 1, rect_width = 1, rect_height = - 5\<rparr>"

definition label_neg5 :: text_call where
  "label_neg5 = \<lparr>t_x = 3 / 2, t_y = 0, t_s = ''0'', t_ha = ''center'', t_va = ''bottom'',
       t_kwargs = Map.empty\<rparr>"

definition bar7 :: rect where
  "bar7 = \<lparr>rect_x = 2, rect_width = 1, rect_height = 7\<rparr>"

definition label7 :: text_call where
  "label7 = \<lparr>t_x = 5 / 2, t_y = 7, t_s = ''7'', t_ha = ''center'', t_va = ''bottom'',
       t_kwargs = Map.empty\<rparr>"

definition label15 :: text_call where
  "label15 = \<lparr>t_x = 1 / 2, t_y = 10, t_s = ''10'', t_ha = ''center'', t_va = ''top'',
       t_kwargs = Map.empty\<rparr>"

definition label_left :: text_call where
  "label_left = \<lparr>t_x = 43 / 100, t_y = 15, t_s = ''15'', t_ha = ''right'', t_va = ''bottom'',
       t_kwargs = Map.empty\<rparr>"

definition note_at :: "real \<Rightarrow> real \<Rightarrow> annotate_call" where
  "note_at x y = \<lparr>a_s = ''t'', a_xy = (x, y), a_kwargs = autotext_kw x y Map.empty\<rparr>"

definition kw_right_top :: kwargs where
  "kw_right_top = [''ha'' \<mapsto> PStr ''right'', ''va'' \<mapsto> PStr ''top'', ''xycoords'' \<mapsto> PStr ''data'']"

definition note_right_top :: annotate_call where
  "note_right_top = \<lparr>a_s = ''t'', a_xy = (0, 0), a_kwargs = autotext_kw 0 0 kw_right_top\<rparr>"

definition kw_ha_only :: kwargs where
  "kw_ha_only = [''ha'' \<mapsto> PStr ''center'']"

definition kw_va_only :: kwargs where
  "kw_va_only = [''va'' \<mapsto> PStr ''center'']"

definition note_with :: "real \<Rightarrow> real \<Rightarrow> kwargs \<Rightarrow> annotate_call" where
  "note_with x y kw = \<lparr>a_s = ''t'', a_xy = (x, y), a_kwargs = autotext_kw x y kw\<rparr>"

definition fs_home :: filesystem where
  "fs_home = \<lparr>nodes = [[] \<mapsto> Dir, [''home''] \<mapsto> Dir], cwd = [''home'']\<rparr>"





definition fs_home_res :: filesystem where
  "fs_home_res = \<lparr>nodes = [[] \<mapsto> Dir, [''home''] \<mapsto> Dir, [''home'', ''res''] \<mapsto> Dir,
       [''home'', ''res'', ''sub''] \<mapsto> Dir], cwd = [''home'']\<rparr>"

definition fs_home_res_out :: "string \<Rightarrow> filesystem" where
  "fs_home_res_out content = \<lparr>nodes = [[] \<mapsto> Dir, [''home''] \<mapsto> Dir, [''home'', ''res''] \<mapsto> Dir,
       [''home'', ''res'', ''sub''] \<mapsto> Dir, [''home'', ''res'', ''sub'', ''out.json''] \<mapsto> File content],
       cwd = [''home'']\<rparr>"

definition fs_data :: filesystem where
  "fs_data = \<lparr>nodes = [[] \<mapsto> Dir, [''home''] \<mapsto> Dir,
       [''home'', ''data.bin''] \<mapsto> File (replicate 5000 CHR ''a'')], cwd = [''home'']\<rparr>"

section \<open>mplhelper: properties\<close>

subsection \<open>The plotting state\<close>

lemma gca_plt0: "gca plt0 = 0"
  by (simp add: plt0_def)

lemma texts_plt0: "texts (axes_of plt0 a) = []"
  by (simp add: plt0_def)

lemma texts_ax_text: "texts (axes_of (ax_text a t plt) a) = texts (axes_of plt a) @ [t]"
  by (simp add: ax_text_def)

lemma annotations_ax_annotate:
  "annotations (axes_of (ax_annotate a c plt) a) = annotations (axes_of plt a) @ [c]"
  by (simp add: ax_annotate_def)

lemma get_ylim_set_ylim:
  "get_ylim a (set_ylim b lo hi plt) = (if a = b then (lo, hi) else get_ylim a plt)"
  by (simp add: get_ylim_def set_ylim_def)

lemma get_ylim_two_panels: "get_ylim i two_panels = (if i = 0 then (- 2, 5) else (- 7, 3))"
  by (simp add: get_ylim_def two_panels_def)

subsection \<open>autotext\<close>

lemma autotext_annotation:
  assumes "autotext x y s ax kwargs plt = Inr plt'"
  shows "last (annotations (axes_of plt' (case ax of None \<Rightarrow> gca plt | Some a \<Rightarrow> a))) =
     \<lparr>a_s = s, a_xy = (x, y), a_kwargs = autotext_kw x y kwargs\<rparr>"
  using assms by (auto simp: autotext_def Let_def annotations_ax_annotate split: if_splits)

text \<open>The call returns unless the caller passes \<^verbatim>\<open>xy\<close> a second time.\<close>

lemma autotext_succeeds:
  "kwargs ''xy'' = None \<Longrightarrow>
     autotext x y s ax kwargs plt =
       Inr (ax_annotate (case ax of None \<Rightarrow> gca plt | Some a \<Rightarrow> a)
              \<lparr>a_s = s, a_xy = (x, y), a_kwargs = autotext_kw x y kwargs\<rparr> plt)"
  by (simp add: autotext_def autotext_kw_def Let_def map_add_def)

lemma autotext_plt0:
  "autotext x y ''t'' None Map.empty plt0 = Inr (ax_annotate 0 (note_at x y) plt0)"
  by (simp add: autotext_succeeds gca_plt0 note_at_def)

lemma autotext_right_top:
  "autotext 0 0 ''t'' None kw_right_top plt0 = Inr (ax_annotate 0 note_right_top plt0)"
  by (simp add: autotext_succeeds gca_plt0 note_right_top_def kw_right_top_def)

text \<open>The call with only \<^verbatim>\<open>ha\<close>, and with only \<^verbatim>\<open>va\<close>, passed by the caller.\<close>

lemma autotext_one_key:
  "autotext 0 0 ''t'' None kw_ha_only plt0 = Inr (ax_annotate 0 (note_with 0 0 kw_ha_only) plt0)"
  "autotext 1 1 ''t'' None kw_va_only plt0 = Inr (ax_annotate 0 (note_with 1 1 kw_va_only) plt0)"
  by (simp_all add: autotext_succeeds gca_plt0 note_with_def kw_ha_only_def kw_va_only_def)

text \<open>
  C4. The annotation \<^verbatim>\<open>autotext\<close> adds carries, when the caller passes no \<^verbatim>\<open>ha\<close>, the
  horizontal alignment \<^verbatim>\<open>center\<close> if \<open>x = 0.5\<close>, \<^verbatim>\<open>left\<close> if \<open>x < 0.5\<close>, \<^verbatim>\<open>right\<close> if
  \<open>x > 0.5\<close>, and, when the caller passes no \<^verbatim>\<open>va\<close>, the vertical alignment \<^verbatim>\<open>center\<close>
  if \<open>y = 0.5\<close>, \<^verbatim>\<open>bottom\<close> if \<open>y < 0.5\<close>, \<^verbatim>\<open>top\<close> if \<open>y > 0.5\<close>. Each alignment is
  computed whatever the caller passes for the other one. The three positions
  \<open>(0.5, 0.5)\<close>, \<open>(0, 1)\<close> and \<open>(1, 0)\<close> are run below, and two calls that pass one of
  the two keys.
\<close>

theorem autotext_alignment:
  assumes "autotext x y s ax kwargs plt = Inr plt'"
    and "c = last (annotations (axes_of plt' (case ax of None \<Rightarrow> gca plt | Some a \<Rightarrow> a)))"
  shows "(kwargs ''ha'' = None \<and> x = 0.5 \<longrightarrow> a_kwargs c ''ha'' = Some (PStr ''center'')) \<and>
         (kwargs ''ha'' = None \<and> x < 0.5 \<longrightarrow> a_kwargs c ''ha'' = Some (PStr ''left'')) \<and>
         (kwargs ''ha'' = None \<and> x > 0.5 \<longrightarrow> a_kwargs c ''ha'' = Some (PStr ''right'')) \<and>
         (kwargs ''va'' = None \<and> y = 0.5 \<longrightarrow> a_kwargs c ''va'' = Some (PStr ''center'')) \<and>
         (kwargs ''va'' = None \<and> y < 0.5 \<longrightarrow> a_kwargs c ''va'' = Some (PStr ''bottom'')) \<and>
         (kwargs ''va'' = None \<and> y > 0.5 \<longrightarrow> a_kwargs c ''va'' = Some (PStr ''top''))"
proof -
  have "a_kwargs c = autotext_kw x y kwargs"
    using autotext_annotation [OF assms(1)] assms(2) by simp
  then show ?thesis
    by (simp add: autotext_kw_def Let_def map_add_def)
qed

theorem autotext_alignment_witness:
  "autotext (1 / 2) (1 / 2) ''t'' None Map.empty plt0 =
     Inr (ax_annotate 0 (note_at (1 / 2) (1 / 2)) plt0) \<and>
   a_kwargs (note_at (1 / 2) (1 / 2)) ''ha'' = Some (PStr ''center'') \<and>
   a_kwargs (note_at (1 / 2) (1 / 2)) ''va'' = Some (PStr ''center'') \<and>
   autotext 0 1 ''t'' None Map.empty plt0 = Inr (ax_annotate 0 (note_at 0 1) plt0) \<and>
   a_kwargs (note_at 0 1) ''ha'' = Some (PStr ''left'') \<and>
   a_kwargs (note_at 0 1) ''va'' = Some (PStr ''top'') \<and>
   autotext 1 0 ''t'' None Map.empty plt0 = Inr (ax_annotate 0 (note_at 1 0) plt0) \<and>
   a_kwargs (note_at 1 0) ''ha'' = Some (PStr ''right'') \<and>
   a_kwargs (note_at 1 0) ''va'' = Some (PStr ''bottom'') \<and>
   autotext 0 0 ''t'' None kw_ha_only plt0 = Inr (ax_annotate 0 (note_with 0 0 kw_ha_only) plt0) \<and>
   kw_ha_only ''ha'' = Some (PStr ''center'') \<and>
   kw_ha_only ''va'' = None \<and>
   a_kwargs (note_with 0 0 kw_ha_only) ''va'' = Some (PStr ''bottom'') \<and>
   autotext 1 1 ''t'' None kw_va_only plt0 = Inr (ax_annotate 0 (note_with 1 1 kw_va_only) plt0) \<and>
   kw_va_only ''va'' = Some (PStr ''center'') \<and>
   kw_va_only ''ha'' = None \<and>
   a_kwargs (note_with 1 1 kw_va_only) ''ha'' = Some (PStr ''right'')"
proof -
  have l: "note_at x y = last (annotations (axes_of (ax_annotate 0 (note_at x y) plt0)
              (case None of None \<Rightarrow> gca plt0 | Some a \<Rightarrow> a)))" for x y
    by (simp add: gca_plt0 annotations_ax_annotate)
  have m: "note_with x y kw = last (annotations (axes_of (ax_annotate 0 (note_with x y kw) plt0)
              (case None of None \<Rightarrow> gca plt0 | Some a \<Rightarrow> a)))" for x y kw
    by (simp add: gca_plt0 annotations_ax_annotate)
  have k: "kw_ha_only ''va'' = None" "kw_va_only ''ha'' = None"
    "kw_ha_only ''ha'' = Some (PStr ''center'')" "kw_va_only ''va'' = Some (PStr ''center'')"
    by (simp_all add: kw_ha_only_def kw_va_only_def)
  from autotext_alignment [OF autotext_plt0 l, of "1 / 2" "1 / 2"]
    autotext_alignment [OF autotext_plt0 l, of 0 1]
    autotext_alignment [OF autotext_plt0 l, of 1 0]
    autotext_alignment [OF autotext_one_key(1) m]
    autotext_alignment [OF autotext_one_key(2) m]
  show ?thesis by (simp add: autotext_plt0 autotext_one_key k)
qed

text \<open>
  C9. The caller's keyword arguments are merged into \<^verbatim>\<open>text_kw\<close> after the automatic
  alignment has been put there, so every key the caller passes reaches \<^verbatim>\<open>ax.annotate\<close>
  with the caller's value: an explicit \<^verbatim>\<open>ha\<close>, \<^verbatim>\<open>va\<close> or \<^verbatim>\<open>xycoords\<close> replaces the
  automatic one. The run below passes all three at \<open>(0, 0)\<close>, where the automatic
  alignment would be \<^verbatim>\<open>left\<close> and \<^verbatim>\<open>bottom\<close>.
\<close>

theorem autotext_kwargs_override:
  assumes "autotext x y s ax kwargs plt = Inr plt'"
    and "kwargs k = Some v"
    and "c = last (annotations (axes_of plt' (case ax of None \<Rightarrow> gca plt | Some a \<Rightarrow> a)))"
  shows "a_kwargs c k = Some v"
proof -
  have "a_kwargs c = autotext_kw x y kwargs"
    using autotext_annotation [OF assms(1)] assms(3) by simp
  then show ?thesis
    using assms(2) by (simp add: autotext_kw_def Let_def map_add_def)
qed

theorem autotext_kwargs_override_witness:
  "autotext 0 0 ''t'' None kw_right_top plt0 = Inr (ax_annotate 0 note_right_top plt0) \<and>
   kw_right_top ''ha'' = Some (PStr ''right'') \<and>
   kw_right_top ''va'' = Some (PStr ''top'') \<and>
   kw_right_top ''xycoords'' = Some (PStr ''data'') \<and>
   a_kwargs (last (annotations (axes_of (ax_annotate 0 note_right_top plt0) 0))) ''ha'' =
     Some (PStr ''right'') \<and>
   a_kwargs (last (annotations (axes_of (ax_annotate 0 note_right_top plt0) 0))) ''va'' =
     Some (PStr ''top'') \<and>
   a_kwargs (last (annotations (axes_of (ax_annotate 0 note_right_top plt0) 0))) ''xycoords'' =
     Some (PStr ''data'')"
proof -
  have k: "kw_right_top ''ha'' = Some (PStr ''right'')" "kw_right_top ''va'' = Some (PStr ''top'')"
    "kw_right_top ''xycoords'' = Some (PStr ''data'')"
    by (simp_all add: kw_right_top_def)
  from autotext_kwargs_override [OF autotext_right_top k(1) refl]
    autotext_kwargs_override [OF autotext_right_top k(2) refl]
    autotext_kwargs_override [OF autotext_right_top k(3) refl]
  show ?thesis by (simp add: autotext_right_top k gca_plt0)
qed

subsection \<open>autolabel\<close>

lemma char_lower_idem: "char_lower (char_lower c) = char_lower c"
  by (simp add: char_lower_def)

lemma str_lower_idem: "str_lower (str_lower s) = str_lower s"
  by (simp add: str_lower_def char_lower_idem)

text \<open>The loop appends one label per bar, in order, each the result of the loop body.\<close>

lemma autolabel_rects_texts:
  "autolabel_rects body ax rects plt = Inr plt' \<Longrightarrow>
     \<exists>ls. list_all2 (\<lambda>r l. body r = Inr l) rects ls \<and>
          texts (axes_of plt' ax) = texts (axes_of plt ax) @ ls"
proof (induction rects arbitrary: plt)
  case Nil
  then show ?case by simp
next
  case (Cons r rects)
  then obtain t where t: "body r = Inr t"
    and rest: "autolabel_rects body ax rects (ax_text ax t plt) = Inr plt'"
    by (auto split: sum.splits)
  from Cons.IH [OF rest] obtain ls where
    "list_all2 (\<lambda>r l. body r = Inr l) rects ls"
    "texts (axes_of plt' ax) = texts (axes_of (ax_text ax t plt) ax) @ ls" by blast
  then show ?case using t
    by (intro exI [of _ "t # ls"]) (simp add: ax_text_def)
qed

lemma autolabel_label_at:
  assumes "autolabel fmt rects xpos formatstr ax yl kwargs plt = Inr plt'"
    and "i < length rects"
  shows "autolabel_rect fmt (str_lower xpos) formatstr yl kwargs (rects ! i) =
     Inr (texts (axes_of plt' (case ax of None \<Rightarrow> gca plt | Some a \<Rightarrow> a)) !
           (length (texts (axes_of plt (case ax of None \<Rightarrow> gca plt | Some a \<Rightarrow> a))) + i))"
proof -
  let ?a = "case ax of None \<Rightarrow> gca plt | Some a \<Rightarrow> a"
  from assms(1) have "autolabel_rects (autolabel_rect fmt (str_lower xpos) formatstr yl kwargs)
      ?a rects plt = Inr plt'"
    by (simp add: autolabel_def)
  from autolabel_rects_texts [OF this] obtain ls where
    ls: "list_all2 (\<lambda>r l. autolabel_rect fmt (str_lower xpos) formatstr yl kwargs r = Inr l) rects ls"
    and tx: "texts (axes_of plt' ?a) = texts (axes_of plt ?a) @ ls" by blast
  from ls assms(2)
  have "autolabel_rect fmt (str_lower xpos) formatstr yl kwargs (rects ! i) = Inr (ls ! i)"
    by (simp add: list_all2_conv_all_nth)
  then show ?thesis by (simp add: tx nth_append)
qed

text \<open>
  A bar above the upper limit: the second clamp fires whatever the first one did.
  A bar below the lower limit: the first clamp fires, and the second one leaves the
  result alone when the limits are in order.
\<close>

lemma autolabel_rect_clamp_hi:
  "autolabel_rect fmt xpos fs (Some (lo, hi)) kw r = Inr l \<Longrightarrow> hi < rect_height r \<Longrightarrow>
     t_y l = hi \<and> t_va l = ''top'' \<and> fmt fs hi = Inr (t_s l)"
  by (auto simp: autolabel_rect_def Let_def split: option.splits sum.splits if_splits)

lemma autolabel_rect_clamp_lo:
  "autolabel_rect fmt xpos fs (Some (lo, hi)) kw r = Inr l \<Longrightarrow> rect_height r < lo \<Longrightarrow>
     lo \<le> hi \<Longrightarrow> t_y l = lo \<and> t_va l = ''bottom'' \<and> fmt fs lo = Inr (t_s l)"
  by (auto simp: autolabel_rect_def Let_def split: option.splits sum.splits if_splits)

text \<open>A bar inside the limits is labelled at its own height.\<close>

lemma autolabel_rect_in_range:
  "autolabel_rect fmt xpos fs (Some (lo, hi)) kw r = Inr l \<Longrightarrow> lo \<le> rect_height r \<Longrightarrow>
     rect_height r \<le> hi \<Longrightarrow>
     t_y l = rect_height r \<and> t_va l = (if 0 \<le> rect_height r then ''bottom'' else ''top'') \<and>
     fmt fs (rect_height r) = Inr (t_s l)"
  by (auto simp: autolabel_rect_def Let_def split: option.splits sum.splits if_splits)

text \<open>
  With the limits the wrong way round (\<open>hi < lo\<close>) a bar below \<open>lo\<close> is moved by both
  clamps and ends at \<open>hi\<close>.
\<close>

lemma autolabel_rect_inverted_limits:
  "autolabel_rect fmt xpos fs (Some (lo, hi)) kw r = Inr l \<Longrightarrow> rect_height r < lo \<Longrightarrow>
     hi < lo \<Longrightarrow> t_y l = hi \<and> t_va l = ''top'' \<and> fmt fs hi = Inr (t_s l)"
  by (auto simp: autolabel_rect_def Let_def split: option.splits sum.splits if_splits)

text \<open>
  The call returns when the side is one of the three, the caller passes no \<^verbatim>\<open>ha\<close> or
  \<^verbatim>\<open>va\<close>, and the template formats every number.
\<close>

lemma autolabel_rect_succeeds:
  assumes "offset_tab xpos \<noteq> None" and "kwargs ''ha'' = None" and "kwargs ''va'' = None"
    and "\<And>v. \<not> isl (fmt formatstr v)"
  shows "\<not> isl (autolabel_rect fmt xpos formatstr yl kwargs r)"
proof -
  from assms(1) have "ha_tab xpos \<noteq> None"
    by (auto simp: offset_tab_def ha_tab_def split: if_splits)
  then obtain off ha where oh: "offset_tab xpos = Some off" "ha_tab xpos = Some ha"
    using assms(1) by auto
  have f: "fmt formatstr v \<noteq> Inl e" for v e
    using assms(4) [of v] by auto
  show ?thesis
    using oh assms(2,3) f
    by (auto simp: autolabel_rect_def Let_def split: prod.splits option.splits sum.splits)
qed

lemma autolabel_rects_succeeds:
  assumes "\<And>r. \<not> isl (body r)"
  shows "\<not> isl (autolabel_rects body ax rects plt)"
proof (induction rects arbitrary: plt)
  case Nil
  then show ?case by simp
next
  case (Cons r rects)
  obtain l where "body r = Inr l" using assms [of r] by (cases "body r") auto
  then show ?case using Cons.IH by simp
qed

lemma autolabel_succeeds:
  assumes "offset_tab (str_lower xpos) \<noteq> None" and "kwargs ''ha'' = None"
    and "kwargs ''va'' = None" and "\<And>v. \<not> isl (fmt formatstr v)"
  shows "\<not> isl (autolabel fmt rects xpos formatstr ax yl kwargs plt)"
  unfolding autolabel_def Let_def
  by (rule autolabel_rects_succeeds) (rule autolabel_rect_succeeds [OF assms(1-3)], rule assms(4))

lemma autolabel_bar15:
  "autolabel format_whole [bar15] ''center'' ''{}'' None (Some (0, 10)) Map.empty plt0 =
     Inr (ax_text 0 label15 plt0)"
  by (simp add: autolabel_def autolabel_rect_def str_lower_def char_lower_def offset_tab_def
      ha_tab_def format_whole_def str_int_def str_nat.simps digit_char_def bar15_def plt0_def
      label15_def)

lemma autolabel_Left:
  "autolabel format_whole [bar15] ''Left'' ''{}'' None None Map.empty plt0 =
     Inr (ax_text 0 label_left plt0)"
  by (simp add: autolabel_def autolabel_rect_def str_lower_def char_lower_def offset_tab_def
      ha_tab_def format_whole_def str_int_def str_nat.simps digit_char_def bar15_def plt0_def
      label_left_def)

lemma autolabel_three_bars:
  "autolabel format_whole [bar15, bar_neg5, bar7] ''center'' ''{}'' None (Some (0, 10)) Map.empty plt0 =
     Inr (ax_text 0 label7 (ax_text 0 label_neg5 (ax_text 0 label15 plt0)))"
  by (simp add: autolabel_def autolabel_rect_def str_lower_def char_lower_def offset_tab_def
      ha_tab_def format_whole_def str_int_def str_nat.simps digit_char_def bar15_def bar_neg5_def
      bar7_def plt0_def label15_def label_neg5_def label7_def Let_def)

lemma texts_three_bars:
  "texts (axes_of (ax_text 0 label7 (ax_text 0 label_neg5 (ax_text 0 label15 plt0))) 0) =
     [label15, label_neg5, label7]"
  by (simp add: texts_ax_text texts_plt0)

text \<open>
  C1. The claim: with \<^verbatim>\<open>ylim=(0, 10)\<close> and a bar of height 15 the label is at \<open>y = 10\<close>
  with alignment \<^verbatim>\<open>top\<close> and its text still shows 15. The position and the alignment
  are as claimed; the text is not: \<^verbatim>\<open>height\<close> itself is overwritten by the limit before
  \<^verbatim>\<open>formatstr.format(height)\<close> runs. On the bar \<open>bar15\<close> with the default template
  the one label drawn is \<open>label15\<close>, whose text is \<^verbatim>\<open>10\<close>, while the template applied
  to 15 gives \<^verbatim>\<open>15\<close>.
\<close>

theorem autolabel_text_true_height_counterexample:
  "autolabel format_whole [bar15] ''center'' ''{}'' None (Some (0, 10)) Map.empty plt0 =
     Inr (ax_text 0 label15 plt0) \<and>
   texts (axes_of (ax_text 0 label15 plt0) 0) = [label15] \<and>
   t_s label15 = ''10'' \<and>
   format_whole ''{}'' 15 = Inr ''15'' \<and>
   \<not> (t_y label15 = 10 \<and> t_va label15 = ''top'' \<and> format_whole ''{}'' 15 = Inr (t_s label15))"
  by (simp add: autolabel_bar15 texts_ax_text texts_plt0)
    (simp add: label15_def format_whole_def str_int_def str_nat.simps digit_char_def)

text \<open>
  C1, amended. For every call with \<^verbatim>\<open>ylim=(0, 10)\<close> that returns, the label of a bar of
  height 15 is at \<open>y = 10\<close> with alignment \<^verbatim>\<open>top\<close>, and its text is the template applied
  to 10, the clamped height.
\<close>

theorem autolabel_height_15_limits_0_10:
  assumes "autolabel fmt rects xpos formatstr ax (Some (0, 10)) kwargs plt = Inr plt'"
    and "i < length rects"
    and "rect_height (rects ! i) = 15"
    and "a = (case ax of None \<Rightarrow> gca plt | Some b \<Rightarrow> b)"
    and "l = texts (axes_of plt' a) ! (length (texts (axes_of plt a)) + i)"
  shows "t_y l = 10 \<and> t_va l = ''top'' \<and> fmt formatstr 10 = Inr (t_s l)"
proof -
  have "autolabel_rect fmt (str_lower xpos) formatstr (Some (0, 10)) kwargs (rects ! i) = Inr l"
    using autolabel_label_at [OF assms(1,2)] assms(4,5) by simp
  moreover have "10 < rect_height (rects ! i)"
    using assms(3) by simp
  ultimately show ?thesis
    by (rule autolabel_rect_clamp_hi)
qed

theorem autolabel_height_15_limits_0_10_witness:
  "autolabel format_whole [bar15] ''center'' ''{}'' None (Some (0, 10)) Map.empty plt0 =
     Inr (ax_text 0 label15 plt0) \<and>
   (0::nat) < length [bar15] \<and> rect_height ([bar15] ! 0) = 15 \<and>
   t_y (texts (axes_of (ax_text 0 label15 plt0) 0) ! 0) = 10 \<and>
   t_va (texts (axes_of (ax_text 0 label15 plt0) 0) ! 0) = ''top'' \<and>
   t_s (texts (axes_of (ax_text 0 label15 plt0) 0) ! 0) = ''10''"
proof -
  have h: "rect_height ([bar15] ! 0) = 15" by (simp add: bar15_def)
  have f: "format_whole ''{}'' 10 = Inr ''10''"
    by (simp add: format_whole_def str_int_def str_nat.simps digit_char_def)
  from autolabel_height_15_limits_0_10 [OF autolabel_bar15 _ h refl refl]
  have "t_y (texts (axes_of (ax_text 0 label15 plt0) 0) ! 0) = 10 \<and>
    t_va (texts (axes_of (ax_text 0 label15 plt0) 0) ! 0) = ''top'' \<and>
    format_whole ''{}'' 10 = Inr (t_s (texts (axes_of (ax_text 0 label15 plt0) 0) ! 0))"
    by (simp add: gca_plt0 texts_plt0)
  with h f show ?thesis by (simp add: autolabel_bar15)
qed

text \<open>
  C2. For every call with limits \<open>(lo, hi)\<close> that returns, and every bar \<open>i\<close> of the
  call, with height \<open>h\<close>: if \<open>h\<close> is above \<open>hi\<close> its label is at \<open>y = hi\<close> with
  alignment \<^verbatim>\<open>top\<close>; if \<open>h\<close> is below \<open>lo\<close> (and the limits are in order, \<open>lo \<le> hi\<close>)
  its label is at \<open>y = lo\<close> with alignment \<^verbatim>\<open>bottom\<close>; in both cases the text is the
  template applied to the limit, not to the bar's height. A bar inside the limits is
  labelled at its height, with the template applied to it. The label of bar \<open>i\<close> is
  the \<open>i\<close>-th text added to the axes.
\<close>

theorem autolabel_clamp:
  assumes "autolabel fmt rects xpos formatstr ax (Some (lo, hi)) kwargs plt = Inr plt'"
    and "i < length rects"
    and "a = (case ax of None \<Rightarrow> gca plt | Some b \<Rightarrow> b)"
    and "l = texts (axes_of plt' a) ! (length (texts (axes_of plt a)) + i)"
    and "h = rect_height (rects ! i)"
  shows "(h < lo \<and> lo \<le> hi \<longrightarrow>
            t_y l = lo \<and> t_va l = ''bottom'' \<and> fmt formatstr lo = Inr (t_s l)) \<and>
         (hi < h \<longrightarrow>
            t_y l = hi \<and> t_va l = ''top'' \<and> fmt formatstr hi = Inr (t_s l)) \<and>
         (lo \<le> h \<and> h \<le> hi \<longrightarrow>
            t_y l = h \<and> t_va l = (if 0 \<le> h then ''bottom'' else ''top'') \<and>
            fmt formatstr h = Inr (t_s l))"
proof -
  have body: "autolabel_rect fmt (str_lower xpos) formatstr (Some (lo, hi)) kwargs (rects ! i) = Inr l"
    using autolabel_label_at [OF assms(1,2)] assms(3,4) by simp
  show ?thesis
    unfolding assms(5)
    using autolabel_rect_clamp_lo [OF body] autolabel_rect_clamp_hi [OF body]
      autolabel_rect_in_range [OF body]
    by blast
qed

theorem autolabel_clamp_witness:
  "autolabel format_whole [bar15, bar_neg5, bar7] ''center'' ''{}'' None (Some (0, 10)) Map.empty plt0 =
     Inr (ax_text 0 label7 (ax_text 0 label_neg5 (ax_text 0 label15 plt0))) \<and>
   texts (axes_of (ax_text 0 label7 (ax_text 0 label_neg5 (ax_text 0 label15 plt0))) 0) =
     [label15, label_neg5, label7] \<and>
   10 < rect_height ([bar15, bar_neg5, bar7] ! 0) \<and>
   t_y label15 = 10 \<and> t_va label15 = ''top'' \<and> format_whole ''{}'' 10 = Inr (t_s label15) \<and>
   rect_height ([bar15, bar_neg5, bar7] ! 1) < 0 \<and> (0::real) \<le> 10 \<and>
   t_y label_neg5 = 0 \<and> t_va label_neg5 = ''bottom'' \<and> format_whole ''{}'' 0 = Inr (t_s label_neg5) \<and>
   0 \<le> rect_height ([bar15, bar_neg5, bar7] ! 2) \<and> rect_height ([bar15, bar_neg5, bar7] ! 2) \<le> 10 \<and>
   t_y label7 = 7 \<and> t_va label7 = ''bottom'' \<and> format_whole ''{}'' 7 = Inr (t_s label7)"
proof -
  have h: "10 < rect_height ([bar15, bar_neg5, bar7] ! 0)"
    "rect_height ([bar15, bar_neg5, bar7] ! 1) < 0"
    "0 \<le> rect_height ([bar15, bar_neg5, bar7] ! 2)" "rect_height ([bar15, bar_neg5, bar7] ! 2) \<le> 10"
    "rect_height ([bar15, bar_neg5, bar7] ! 2) = 7"
    by (simp_all add: bar15_def bar_neg5_def bar7_def)
  from autolabel_clamp [OF autolabel_three_bars _ refl refl refl, of 0] h(1)
  have a: "t_y label15 = 10 \<and> t_va label15 = ''top'' \<and> format_whole ''{}'' 10 = Inr (t_s label15)"
    by (simp add: gca_plt0 texts_plt0 texts_three_bars)
  from autolabel_clamp [OF autolabel_three_bars _ refl refl refl, of 1] h(2)
  have b: "t_y label_neg5 = 0 \<and> t_va label_neg5 = ''bottom'' \<and>
      format_whole ''{}'' 0 = Inr (t_s label_neg5)"
    by (simp add: gca_plt0 texts_plt0 texts_three_bars)
  from autolabel_clamp [OF autolabel_three_bars _ refl refl refl, of 2] h(3,4,5)
  have c: "t_y label7 = 7 \<and> t_va label7 = ''bottom'' \<and> format_whole ''{}'' 7 = Inr (t_s label7)"
    by (simp add: gca_plt0 texts_plt0 texts_three_bars)
  from a b c h show ?thesis by (simp add: autolabel_three_bars texts_three_bars)
qed

lemma autolabel_first_label:
  assumes "autolabel fmt (r # rects) xpos formatstr ax yl kwargs plt = Inr plt'"
    and "a = (case ax of None \<Rightarrow> gca plt | Some b \<Rightarrow> b)"
    and "l = texts (axes_of plt' a) ! length (texts (axes_of plt a))"
  shows "\<exists>off ha. offset_tab (str_lower xpos) = Some off \<and> ha_tab (str_lower xpos) = Some ha \<and>
           t_x l = rect_x r + rect_width r * off \<and> t_ha l = ha"
proof -
  have "autolabel_rect fmt (str_lower xpos) formatstr yl kwargs ((r # rects) ! 0) = Inr l"
    using autolabel_label_at [OF assms(1), of 0] assms(2,3) by simp
  then show ?thesis
    by (auto simp: autolabel_rect_def Let_def split: option.splits sum.splits if_splits prod.splits)
qed

text \<open>
  C10. \<^verbatim>\<open>autolabel\<close> lower-cases \<^verbatim>\<open>xpos\<close> first: a side and its lower-cased form give the
  same result (\<^verbatim>\<open>CENTER\<close>, \<^verbatim>\<open>Left\<close> and \<^verbatim>\<open>right\<close> among them), and the two tables are
  looked up at the lower-cased side: with at least one bar, a side whose lower-cased
  form is not in the offset table raises KeyError, and when the call returns the first
  bar's label has the offset and the alignment the tables give for the lower-cased side.
\<close>

theorem autolabel_xpos_case_insensitive:
  "autolabel fmt rects (str_lower xpos) formatstr ax yl kwargs plt =
     autolabel fmt rects xpos formatstr ax yl kwargs plt \<and>
   autolabel fmt rects ''CENTER'' formatstr ax yl kwargs plt =
     autolabel fmt rects ''center'' formatstr ax yl kwargs plt \<and>
   autolabel fmt rects ''Left'' formatstr ax yl kwargs plt =
     autolabel fmt rects ''left'' formatstr ax yl kwargs plt \<and>
   autolabel fmt rects ''right'' formatstr ax yl kwargs plt =
     autolabel fmt rects (str_lower ''right'') formatstr ax yl kwargs plt \<and>
   (offset_tab (str_lower xpos) = None \<longrightarrow>
      autolabel fmt (r # rects) xpos formatstr ax yl kwargs plt = Inl KeyError) \<and>
   (autolabel fmt (r # rects) xpos formatstr ax yl kwargs plt = Inr plt' \<longrightarrow>
      (\<exists>off ha. offset_tab (str_lower xpos) = Some off \<and> ha_tab (str_lower xpos) = Some ha \<and>
         t_x (texts (axes_of plt' (case ax of None \<Rightarrow> gca plt | Some b \<Rightarrow> b)) !
                length (texts (axes_of plt (case ax of None \<Rightarrow> gca plt | Some b \<Rightarrow> b)))) =
           rect_x r + rect_width r * off \<and>
         t_ha (texts (axes_of plt' (case ax of None \<Rightarrow> gca plt | Some b \<Rightarrow> b)) !
                length (texts (axes_of plt (case ax of None \<Rightarrow> gca plt | Some b \<Rightarrow> b)))) = ha))"
proof -
  have 1: "autolabel fmt rects (str_lower xpos) formatstr ax yl kwargs plt =
           autolabel fmt rects xpos formatstr ax yl kwargs plt"
    by (simp add: autolabel_def str_lower_idem)
  have 2: "autolabel fmt rects ''CENTER'' formatstr ax yl kwargs plt =
           autolabel fmt rects ''center'' formatstr ax yl kwargs plt"
    by (simp add: autolabel_def str_lower_def char_lower_def)
  have 3: "autolabel fmt rects ''Left'' formatstr ax yl kwargs plt =
           autolabel fmt rects ''left'' formatstr ax yl kwargs plt"
    by (simp add: autolabel_def str_lower_def char_lower_def)
  have 4: "autolabel fmt rects ''right'' formatstr ax yl kwargs plt =
           autolabel fmt rects (str_lower ''right'') formatstr ax yl kwargs plt"
    by (simp add: autolabel_def str_lower_def char_lower_def)
  have 5: "offset_tab (str_lower xpos) = None \<longrightarrow>
           autolabel fmt (r # rects) xpos formatstr ax yl kwargs plt = Inl KeyError"
    by (simp add: autolabel_def autolabel_rect_def Let_def split: prod.splits)
  have 6: "autolabel fmt (r # rects) xpos formatstr ax yl kwargs plt = Inr plt' \<longrightarrow>
      (\<exists>off ha. offset_tab (str_lower xpos) = Some off \<and> ha_tab (str_lower xpos) = Some ha \<and>
         t_x (texts (axes_of plt' (case ax of None \<Rightarrow> gca plt | Some b \<Rightarrow> b)) !
                length (texts (axes_of plt (case ax of None \<Rightarrow> gca plt | Some b \<Rightarrow> b)))) =
           rect_x r + rect_width r * off \<and>
         t_ha (texts (axes_of plt' (case ax of None \<Rightarrow> gca plt | Some b \<Rightarrow> b)) !
                length (texts (axes_of plt (case ax of None \<Rightarrow> gca plt | Some b \<Rightarrow> b)))) = ha)"
    using autolabel_first_label [OF _ refl refl] by blast
  from 1 2 3 4 5 6 show ?thesis by (intro conjI)
qed

theorem autolabel_xpos_case_insensitive_witness:
  "autolabel format_whole [bar15] ''Left'' ''{}'' None None Map.empty plt0 =
     Inr (ax_text 0 label_left plt0) \<and>
   autolabel format_whole [bar15] ''left'' ''{}'' None None Map.empty plt0 =
     Inr (ax_text 0 label_left plt0) \<and>
   offset_tab (str_lower ''Left'') = Some (43 / 100) \<and>
   ha_tab (str_lower ''Left'') = Some ''right'' \<and>
   t_x (texts (axes_of (ax_text 0 label_left plt0) 0) ! 0) =
     rect_x bar15 + rect_width bar15 * (43 / 100) \<and>
   t_ha (texts (axes_of (ax_text 0 label_left plt0) 0) ! 0) = ''right'' \<and>
   offset_tab (str_lower ''Middle'') = None \<and>
   autolabel format_whole [bar15] ''Middle'' ''{}'' None None Map.empty plt0 = Inl KeyError"
proof -
  have none: "offset_tab (str_lower ''Middle'') = None"
    by (simp add: offset_tab_def str_lower_def char_lower_def)
  have some: "offset_tab (str_lower ''Left'') = Some (43 / 100)"
    "ha_tab (str_lower ''Left'') = Some ''right''"
    by (simp_all add: offset_tab_def ha_tab_def str_lower_def char_lower_def)
  note t1 = autolabel_xpos_case_insensitive
      [of format_whole "[bar15]" "''Middle''" "''{}''" None None Map.empty plt0 bar15 plt0]
  note t2 = autolabel_xpos_case_insensitive
      [of format_whole "[]" "''Middle''" "''{}''" None None Map.empty plt0 bar15 plt0]
  note t3 = autolabel_xpos_case_insensitive
      [of format_whole "[]" "''Left''" "''{}''" None None Map.empty plt0 bar15
        "ax_text 0 label_left plt0"]
  from t1 have eq: "autolabel format_whole [bar15] ''Left'' ''{}'' None None Map.empty plt0 =
      autolabel format_whole [bar15] ''left'' ''{}'' None None Map.empty plt0"
    by blast
  from t2 none have ke: "autolabel format_whole [bar15] ''Middle'' ''{}'' None None Map.empty plt0 =
      Inl KeyError"
    by blast
  from t3 autolabel_Left obtain off ha where oh: "offset_tab (str_lower ''Left'') = Some off"
    "ha_tab (str_lower ''Left'') = Some ha"
    "t_x (texts (axes_of (ax_text 0 label_left plt0) (case None of None \<Rightarrow> gca plt0 | Some b \<Rightarrow> b)) !
        length (texts (axes_of plt0 (case None of None \<Rightarrow> gca plt0 | Some b \<Rightarrow> b)))) =
      rect_x bar15 + rect_width bar15 * off"
    "t_ha (texts (axes_of (ax_text 0 label_left plt0) (case None of None \<Rightarrow> gca plt0 | Some b \<Rightarrow> b)) !
        length (texts (axes_of plt0 (case None of None \<Rightarrow> gca plt0 | Some b \<Rightarrow> b)))) = ha"
    by blast
  from oh some have "t_x (texts (axes_of (ax_text 0 label_left plt0) 0) ! 0) =
      rect_x bar15 + rect_width bar15 * (43 / 100)"
    "t_ha (texts (axes_of (ax_text 0 label_left plt0) 0) ! 0) = ''right''"
    by (simp_all add: gca_plt0 texts_plt0)
  with eq ke none some show ?thesis by (simp add: autolabel_Left)
qed

subsection \<open>set_ylim_symm, set_sharey_symm\<close>

lemma Max_insert_max:
  fixes x y :: real
  assumes "finite S"
  shows "Max (insert (max x y) S) = Max (insert y (insert x S))"
proof (cases "S = {}")
  case True
  then show ?thesis by (simp add: max.commute)
next
  case False
  with assms show ?thesis by (simp add: max.assoc max.commute max.left_commute)
qed

text \<open>The first loop: the running maximum over the axes seen, starting from 0.\<close>

lemma sharey_yabsmax_Max:
  "sharey_yabsmax axs plt m0 =
     Max (insert m0 ((\<lambda>a. max \<bar>fst (get_ylim a plt)\<bar> \<bar>snd (get_ylim a plt)\<bar>) ` set axs))"
proof (induction axs arbitrary: m0)
  case Nil
  then show ?case by simp
next
  case (Cons a axs)
  show ?case
    by (simp add: Cons.IH Max_insert_max split: prod.splits)
qed

lemma sharey_yabsmax_nonempty:
  assumes "axs \<noteq> []"
  shows "sharey_yabsmax axs plt 0 =
     Max ((\<lambda>a. max \<bar>fst (get_ylim a plt)\<bar> \<bar>snd (get_ylim a plt)\<bar>) ` set axs)"
proof -
  let ?S = "(\<lambda>a. max \<bar>fst (get_ylim a plt)\<bar> \<bar>snd (get_ylim a plt)\<bar>) ` set axs"
  have fin: "finite ?S" and ne: "?S \<noteq> {}" using assms by auto
  have "\<forall>v \<in> ?S. 0 \<le> v" by auto
  then have "0 \<le> Max ?S" using fin ne
    by (meson Max_in)
  then show ?thesis using fin ne by (simp add: sharey_yabsmax_Max)
qed

text \<open>The second loop: every axis of the list gets the range, every other axis is left.\<close>

lemma get_ylim_sharey_apply:
  "get_ylim a (sharey_apply axs m plt) = (if a \<in> set axs then (- m, m) else get_ylim a plt)"
  by (induction axs arbitrary: plt) (auto simp: get_ylim_set_ylim)

text \<open>
  C8. \<^verbatim>\<open>set_ylim_symm\<close> sets the axis with range \<open>(yb, yt)\<close> to \<open>(- m, m)\<close> with
  \<open>m = max \<bar>yb\<bar> \<bar>yt\<bar>\<close>, so \<open>(- 2, 5)\<close> becomes \<open>(- 5, 5)\<close>. For a non-empty list of axes,
  the first loop of \<^verbatim>\<open>set_sharey_symm\<close> computes the maximum \<open>m\<close> of \<open>\<bar>bound\<bar>\<close> over the
  original ranges of all the axes of the list, and the second loop sets every axis of
  the list to \<open>(- m, m)\<close>.
\<close>

theorem symmetric_ylim:
  assumes "axs \<noteq> []"
    and "m = Max ((\<lambda>a. max \<bar>fst (get_ylim a plt)\<bar> \<bar>snd (get_ylim a plt)\<bar>) ` set axs)"
  shows "get_ylim ax (set_ylim_symm ax plt) =
           (- max \<bar>fst (get_ylim ax plt)\<bar> \<bar>snd (get_ylim ax plt)\<bar>,
            max \<bar>fst (get_ylim ax plt)\<bar> \<bar>snd (get_ylim ax plt)\<bar>) \<and>
         (get_ylim ax plt = (- 2, 5) \<longrightarrow> get_ylim ax (set_ylim_symm ax plt) = (- 5, 5)) \<and>
         sharey_yabsmax axs plt 0 = m \<and>
         set_sharey_symm axs plt = sharey_apply axs m plt \<and>
         (\<forall>a \<in> set axs. get_ylim a (set_sharey_symm axs plt) = (- m, m))"
proof -
  have 1: "get_ylim ax (set_ylim_symm ax plt) =
           (- max \<bar>fst (get_ylim ax plt)\<bar> \<bar>snd (get_ylim ax plt)\<bar>,
            max \<bar>fst (get_ylim ax plt)\<bar> \<bar>snd (get_ylim ax plt)\<bar>)"
    by (simp add: set_ylim_symm_def get_ylim_set_ylim Let_def split: prod.splits)
  then have 2: "get_ylim ax plt = (- 2, 5) \<longrightarrow> get_ylim ax (set_ylim_symm ax plt) = (- 5, 5)"
    by simp
  have 3: "sharey_yabsmax axs plt 0 = m"
    using sharey_yabsmax_nonempty [OF assms(1)] assms(2) by simp
  then have 4: "set_sharey_symm axs plt = sharey_apply axs m plt"
    by (simp add: set_sharey_symm_def)
  have 5: "\<forall>a \<in> set axs. get_ylim a (set_sharey_symm axs plt) = (- m, m)"
    by (simp add: 4 get_ylim_sharey_apply)
  from 1 2 3 4 5 show ?thesis by (intro conjI)
qed

theorem symmetric_ylim_witness:
  "[0, Suc 0] \<noteq> [] \<and>
   get_ylim 0 two_panels = (- 2, 5) \<and> get_ylim (Suc 0) two_panels = (- 7, 3) \<and>
   get_ylim 0 (set_ylim_symm 0 two_panels) = (- 5, 5) \<and>
   sharey_yabsmax [0, Suc 0] two_panels 0 = 7 \<and>
   get_ylim 0 (set_sharey_symm [0, Suc 0] two_panels) = (- 7, 7) \<and>
   get_ylim (Suc 0) (set_sharey_symm [0, Suc 0] two_panels) = (- 7, 7)"
proof -
  have ne: "[0, Suc 0] \<noteq> []" by simp
  have m: "(7::real) = Max ((\<lambda>a. max \<bar>fst (get_ylim a two_panels)\<bar> \<bar>snd (get_ylim a two_panels)\<bar>) `
      set [0, Suc 0])"
    by (simp add: get_ylim_two_panels)
  from symmetric_ylim [OF ne m, of 0]
  show ?thesis by (simp add: get_ylim_two_panels get_ylim_set_ylim)
qed

section \<open>fileio: properties\<close>

subsection \<open>Walking and creating directories\<close>

text \<open>
  \<open>mkdirs_walk\<close> keeps every node there is, adds directories only, ends with the
  named directory in place, and changes nothing when run again.
\<close>

lemma walk_append:
  "walk t cur (xs @ ys) = (case walk t cur xs of Inl e \<Rightarrow> Inl e | Inr l \<Rightarrow> walk t l ys)"
  by (induction xs arbitrary: cur) (auto split: option.splits node.splits)

lemma walk_start_dir:
  "walk t cur cs = Inr l \<Longrightarrow> t l = Some Dir \<Longrightarrow> t cur = Some Dir"
  by (cases cs) (auto split: option.splits node.splits)

lemma mkdirs_walk_preserves:
  "mkdirs_walk t cur cs = Inr t' \<Longrightarrow> t x = Some n \<Longrightarrow> t' x = Some n"
proof (induction cs arbitrary: t cur)
  case Nil
  then show ?case by (auto split: option.splits node.splits)
next
  case (Cons c cs)
  from Cons.prems have cur: "t cur = Some Dir"
    by (auto split: option.splits node.splits)
  show ?case
  proof (cases "c = [] \<or> c = ''.'' \<or> c = ''..''")
    case True
    then show ?thesis using Cons cur by auto
  next
    case False
    show ?thesis
    proof (cases "t (cur @ [c])")
      case None
      with False cur Cons.prems
      have sub: "mkdirs_walk (t(cur @ [c] \<mapsto> Dir)) (cur @ [c]) cs = Inr t'" by simp
      from None Cons.prems(2) have "(t(cur @ [c] \<mapsto> Dir)) x = Some n" by auto
      then show ?thesis by (rule Cons.IH [OF sub])
    next
      case (Some m)
      with False cur Cons.prems
      have sub: "mkdirs_walk t (cur @ [c]) cs = Inr t'" by simp
      then show ?thesis using Cons.prems(2) by (rule Cons.IH)
    qed
  qed
qed

lemma mkdirs_walk_only_adds_dirs:
  "mkdirs_walk t cur cs = Inr t' \<Longrightarrow> t' x = Some n \<Longrightarrow> t x = Some n \<or> (t x = None \<and> n = Dir)"
proof (induction cs arbitrary: t cur)
  case Nil
  then show ?case by (auto split: option.splits node.splits)
next
  case (Cons c cs)
  then show ?case
    by (fastforce split: option.splits node.splits if_splits)
qed

lemma mkdirs_walk_isdir:
  "mkdirs_walk t cur cs = Inr t' \<Longrightarrow> \<exists>l. walk t' cur cs = Inr l \<and> t' l = Some Dir"
proof (induction cs arbitrary: t cur)
  case Nil
  then show ?case by (auto split: option.splits node.splits)
next
  case (Cons c cs)
  from Cons.prems have cur: "t cur = Some Dir"
    by (auto split: option.splits node.splits)
  with Cons.prems have cur': "t' cur = Some Dir"
    by (rule_tac mkdirs_walk_preserves)
  show ?case
    using Cons.prems Cons.IH cur cur'
    by (auto split: option.splits if_splits)
qed

lemma mkdirs_walk_idem:
  "mkdirs_walk t cur cs = Inr t' \<Longrightarrow> mkdirs_walk t' cur cs = Inr t'"
proof (induction cs arbitrary: t cur)
  case Nil
  then show ?case by (auto split: option.splits node.splits)
next
  case (Cons c cs)
  from Cons.prems have cur: "t cur = Some Dir"
    by (auto split: option.splits node.splits)
  with Cons.prems have cur': "t' cur = Some Dir"
    by (rule_tac mkdirs_walk_preserves)
  show ?case
  proof (cases "c = [] \<or> c = ''.'' \<or> c = ''..''")
    case True
    then show ?thesis using Cons.prems Cons.IH cur cur' by auto
  next
    case False
    show ?thesis
    proof (cases "t (cur @ [c])")
      case None
      with False cur Cons.prems
      have sub: "mkdirs_walk (t(cur @ [c] \<mapsto> Dir)) (cur @ [c]) cs = Inr t'" by simp
      have "t' (cur @ [c]) = Some Dir"
        by (rule mkdirs_walk_preserves [OF sub]) simp
      then show ?thesis using False cur' Cons.IH [OF sub] by simp
    next
      case (Some n)
      with False cur Cons.prems
      have sub: "mkdirs_walk t (cur @ [c]) cs = Inr t'" by simp
      have "t' (cur @ [c]) = Some n"
        by (rule mkdirs_walk_preserves [OF sub Some])
      then show ?thesis using False cur' Cons.IH [OF sub] by simp
    qed
  qed
qed

lemma mkdirs_walk_existing:
  "walk t cur cs = Inr l \<Longrightarrow> t l = Some Dir \<Longrightarrow> mkdirs_walk t cur cs = Inr t"
proof (induction cs arbitrary: cur)
  case Nil
  then show ?case by simp
next
  case (Cons c cs)
  from Cons.prems have cur: "t cur = Some Dir"
    by (rule walk_start_dir)
  show ?case
  proof (cases "c = [] \<or> c = ''.'' \<or> c = ''..''")
    case True
    then show ?thesis using Cons cur by auto
  next
    case False
    with Cons.prems cur have w: "walk t (cur @ [c]) cs = Inr l" by simp
    from walk_start_dir [OF w Cons.prems(2)] have "t (cur @ [c]) = Some Dir" .
    then show ?thesis using False cur Cons.IH [OF w Cons.prems(2)] by simp
  qed
qed

subsection \<open>Path strings\<close>

lemma split_sep_not_Nil: "split_sep p \<noteq> []"
  by (induction p) (auto split: list.splits)

lemma split_sep_no_sep: "CHR ''/'' \<notin> set p \<Longrightarrow> split_sep p = [p]"
  by (induction p) auto

lemma split_sep_append_sep:
  "split_sep (a @ CHR ''/'' # b) = split_sep a @ split_sep b"
  by (induction a) (auto split: list.splits simp: split_sep_not_Nil)

lemma split_sep_seps:
  "CHR ''/'' \<notin> set base \<Longrightarrow> split_sep (replicate m CHR ''/'' @ base) = replicate m [] @ [base]"
  by (induction m) (auto simp: split_sep_no_sep)

lemma walk_empties_last:
  "t cur = Some Dir \<Longrightarrow> \<exists>l. walk t cur (replicate m [] @ [x]) = Inr l"
  by (induction m) auto

lemma walk_empties:
  "walk t cur (replicate (Suc m) []) = Inr l \<Longrightarrow> l = cur \<and> t cur = Some Dir"
  by (induction m) (auto split: option.splits node.splits)

lemma rev_split_while:
  "q = rev (dropWhile P (rev q)) @ rev (takeWhile P (rev q))"
proof -
  have "rev (rev q) = rev (takeWhile P (rev q) @ dropWhile P (rev q))" by simp
  then show ?thesis by (simp only: rev_append rev_rev_ident)
qed

lemma takeWhile_eq_replicate:
  "takeWhile (\<lambda>c. c = x) xs = replicate (length (takeWhile (\<lambda>c. c = x) xs)) x"
  by (rule replicate_length_same [symmetric]) (auto dest: set_takeWhileD)

lemma dropWhile_hd: "dropWhile P xs \<noteq> [] \<Longrightarrow> \<not> P (hd (dropWhile P xs))"
  by (induction xs) auto

lemma dirname_shape:
  assumes "dirname q \<noteq> []"
  shows "\<exists>m base. CHR ''/'' \<notin> set base \<and>
           ((dirname q = replicate (Suc m) CHR ''/'' \<and> q = replicate (Suc m) CHR ''/'' @ base) \<or>
            q = dirname q @ CHR ''/'' # replicate m CHR ''/'' @ base)"
proof -
  define base where "base = rev (takeWhile (\<lambda>c. c \<noteq> CHR ''/'') (rev q))"
  define head where "head = rev (dropWhile (\<lambda>c. c \<noteq> CHR ''/'') (rev q))"
  have q: "q = head @ base"
    unfolding head_def base_def by (rule rev_split_while)
  have base: "CHR ''/'' \<notin> set base"
    unfolding base_def by (auto dest: set_takeWhileD)
  have d: "dirname q = (if head \<noteq> [] \<and> head \<noteq> replicate (length head) CHR ''/''
         then rev (dropWhile (\<lambda>c. c = CHR ''/'') (rev head)) else head)"
    by (simp add: dirname_def head_def Let_def)
  have hne: "head \<noteq> []" using assms d by (auto split: if_splits)
  have last_head: "last head = CHR ''/''"
  proof -
    have ne: "dropWhile (\<lambda>c. c \<noteq> CHR ''/'') (rev q) \<noteq> []" using hne by (simp add: head_def)
    from dropWhile_hd [OF ne] have "hd (dropWhile (\<lambda>c. c \<noteq> CHR ''/'') (rev q)) = CHR ''/''"
      by simp
    then show ?thesis using ne by (simp add: head_def last_rev)
  qed
  show ?thesis
  proof (cases "head = replicate (length head) CHR ''/''")
    case True
    then have dq: "dirname q = head" using d by simp
    obtain m where m: "length head = Suc m" using hne by (cases head) auto
    have "dirname q = replicate (Suc m) CHR ''/''" using True dq m by simp
    moreover have "q = replicate (Suc m) CHR ''/'' @ base" using q True m by simp
    ultimately show ?thesis using base by blast
  next
    case False
    define k where "k = length (takeWhile (\<lambda>c. c = CHR ''/'') (rev head))"
    have tw: "takeWhile (\<lambda>c. c = CHR ''/'') (rev head) = replicate k CHR ''/''"
      unfolding k_def by (rule takeWhile_eq_replicate)
    have dq: "dirname q = rev (dropWhile (\<lambda>c. c = CHR ''/'') (rev head))"
      using d hne False by simp
    have "head = rev (dropWhile (\<lambda>c. c = CHR ''/'') (rev head)) @
        rev (takeWhile (\<lambda>c. c = CHR ''/'') (rev head))"
      by (rule rev_split_while)
    then have h: "head = dirname q @ replicate k CHR ''/''"
      using dq tw by simp
    have "k \<noteq> 0"
    proof
      assume "k = 0"
      then have "head = dirname q" using h by simp
      then have "last (dirname q) = CHR ''/''" using last_head by simp
      then have "hd (dropWhile (\<lambda>c. c = CHR ''/'') (rev head)) = CHR ''/''"
        using dq assms by (simp add: last_rev)
      moreover have "dropWhile (\<lambda>c. c = CHR ''/'') (rev head) \<noteq> []"
        using dq assms by simp
      then have "hd (dropWhile (\<lambda>c. c = CHR ''/'') (rev head)) \<noteq> CHR ''/''"
        by (rule dropWhile_hd)
      ultimately show False by simp
    qed
    then obtain m where "k = Suc m" by (cases k) auto
    then have "q = dirname q @ CHR ''/'' # replicate m CHR ''/'' @ base"
      using q h by (simp add: replicate_append_same)
    then show ?thesis using base by blast
  qed
qed

lemma walk_after_dirname:
  assumes "walk t s (split_sep (dirname q)) = Inr l" and "t l = Some Dir" and "dirname q \<noteq> []"
  shows "\<exists>l'. walk t s (split_sep q) = Inr l'"
proof -
  from dirname_shape [OF assms(3)] obtain m base where base: "CHR ''/'' \<notin> set base"
    and shape: "(dirname q = replicate (Suc m) CHR ''/'' \<and> q = replicate (Suc m) CHR ''/'' @ base) \<or>
            q = dirname q @ CHR ''/'' # replicate m CHR ''/'' @ base" by blast
  from shape show ?thesis
  proof
    assume a: "dirname q = replicate (Suc m) CHR ''/'' \<and> q = replicate (Suc m) CHR ''/'' @ base"
    have "split_sep (replicate (Suc m) CHR ''/'' @ []) = replicate (Suc m) [] @ [[]]"
      by (rule split_sep_seps) simp
    then have "split_sep (dirname q) = replicate (Suc (Suc m)) []"
      using a [THEN conjunct1] by (simp add: replicate_append_same)
    with assms(1) have "walk t s (replicate (Suc (Suc m)) []) = Inr l" by simp
    then have "t s = Some Dir"
      using walk_empties by blast
    moreover have "split_sep q = replicate (Suc m) [] @ [base]"
      using a [THEN conjunct2] base split_sep_seps [of base "Suc m"] by simp
    ultimately show ?thesis
      using walk_empties_last [of t s "Suc m" base] by simp
  next
    assume a: "q = dirname q @ CHR ''/'' # replicate m CHR ''/'' @ base"
    have "split_sep (dirname q @ CHR ''/'' # replicate m CHR ''/'' @ base) =
        split_sep (dirname q) @ replicate m [] @ [base]"
      by (simp add: split_sep_append_sep split_sep_seps base)
    then have "split_sep q = split_sep (dirname q) @ replicate m [] @ [base]"
      using a by simp
    then show ?thesis
      using assms(1,2) walk_empties_last [of t l m base] by (simp add: walk_append)
  qed
qed

lemma take1_dirname:
  assumes "dirname q \<noteq> []"
  shows "take 1 (dirname q) = take 1 q"
proof -
  from dirname_shape [OF assms] obtain r where "q = dirname q @ r" by auto
  then have "take 1 q = take 1 (dirname q @ r)" by simp
  also have "\<dots> = take 1 (dirname q)" using assms by (cases "dirname q") auto
  finally show ?thesis by simp
qed

lemma start_of_dirname:
  assumes "dirname q \<noteq> []"
  shows "start_of fs (dirname q) = start_of fs q"
  unfolding start_of_def take1_dirname [OF assms] ..

lemma start_of_nodes [simp]: "start_of (fs\<lparr>nodes := t\<rparr>) p = start_of fs p"
  by (simp add: start_of_def)

subsection \<open>makedirs\<close>

text \<open>The same facts for \<open>makedirs_exist_ok\<close> on path strings.\<close>

lemma makedirs_exist_ok_isdir:
  assumes "makedirs_exist_ok name fs = Inr fs'"
  shows "isdir fs' name" and "cwd fs' = cwd fs" and "name \<noteq> []"
proof -
  from assms show ne: "name \<noteq> []"
    by (auto simp: makedirs_exist_ok_def split: if_splits)
  from assms ne obtain t' where t': "mkdirs_walk (nodes fs) (start_of fs name) (split_sep name) = Inr t'"
    and fs': "fs' = fs\<lparr>nodes := t'\<rparr>"
    by (auto simp: makedirs_exist_ok_def split: sum.splits)
  from fs' show "cwd fs' = cwd fs" by simp
  from mkdirs_walk_isdir [OF t'] obtain l
    where "walk t' (start_of fs name) (split_sep name) = Inr l" "t' l = Some Dir" by blast
  then show "isdir fs' name"
    using ne fs' by (simp add: isdir_def resolve_def)
qed

lemma makedirs_exist_ok_idem:
  assumes "makedirs_exist_ok name fs = Inr fs'"
  shows "makedirs_exist_ok name fs' = Inr fs'"
proof -
  from assms have ne: "name \<noteq> []"
    by (auto simp: makedirs_exist_ok_def split: if_splits)
  from assms ne obtain t' where t': "mkdirs_walk (nodes fs) (start_of fs name) (split_sep name) = Inr t'"
    and fs': "fs' = fs\<lparr>nodes := t'\<rparr>"
    by (auto simp: makedirs_exist_ok_def split: sum.splits)
  from mkdirs_walk_idem [OF t'] show ?thesis
    using ne fs' by (simp add: makedirs_exist_ok_def)
qed

lemma makedirs_exist_ok_existing:
  assumes "isdir fs name"
  shows "makedirs_exist_ok name fs = Inr fs"
proof -
  from assms have ne: "name \<noteq> []"
    by (auto simp: isdir_def resolve_def split: if_splits)
  from assms ne obtain l where "walk (nodes fs) (start_of fs name) (split_sep name) = Inr l"
    "nodes fs l = Some Dir"
    by (auto simp: isdir_def resolve_def split: sum.splits)
  from mkdirs_walk_existing [OF this] show ?thesis
    using ne by (simp add: makedirs_exist_ok_def)
qed

lemma makedirs_exist_ok_frame:
  assumes "makedirs_exist_ok name fs = Inr fs'"
  shows "(nodes fs x = Some n \<longrightarrow> nodes fs' x = Some n) \<and>
         (nodes fs' x = Some n \<longrightarrow> nodes fs x = Some n \<or> (nodes fs x = None \<and> n = Dir))"
proof -
  from assms obtain t' where t': "mkdirs_walk (nodes fs) (start_of fs name) (split_sep name) = Inr t'"
    and fs': "fs' = fs\<lparr>nodes := t'\<rparr>"
    by (auto simp: makedirs_exist_ok_def split: sum.splits if_splits)
  show ?thesis
    using mkdirs_walk_preserves [OF t'] mkdirs_walk_only_adds_dirs [OF t'] fs' by auto
qed

subsection \<open>make_parent_dir\<close>


lemma make_parent_dir_idem:
  assumes "make_parent_dir path fs = Inr fs'"
  shows "make_parent_dir path fs' = Inr fs'"
  using assms by (simp add: make_parent_dir_def Let_def makedirs_exist_ok_idem)

lemma make_parent_dir_existing:
  assumes "isdir fs (dirname (normpath path))"
  shows "make_parent_dir path fs = Inr fs"
  using assms by (simp add: make_parent_dir_def Let_def makedirs_exist_ok_existing)

text \<open>A path without a separator has the empty \<open>dirname\<close>, before and after \<open>normpath\<close>.\<close>

lemma normpath_no_sep:
  assumes "CHR ''/'' \<notin> set path"
  shows "CHR ''/'' \<notin> set (normpath path)"
proof (cases "path = []")
  case True
  then show ?thesis by (simp add: normpath_def)
next
  case False
  then have "take 1 path \<noteq> ''/''" using assms by (cases path) auto
  then show ?thesis
    using assms False
    by (auto simp: normpath_def Let_def split_sep_no_sep normpath_step_def)
qed

lemma dirname_no_sep: "CHR ''/'' \<notin> set p \<Longrightarrow> dirname p = []"
proof -
  assume "CHR ''/'' \<notin> set p"
  then have "dropWhile (\<lambda>c. c \<noteq> CHR ''/'') (rev p) = []"
    by auto
  then show ?thesis by (simp add: dirname_def)
qed

lemma make_parent_dir_no_directory_part:
  "CHR ''/'' \<notin> set path \<Longrightarrow> make_parent_dir path fs = Inl FileNotFoundError"
  by (simp add: make_parent_dir_def Let_def dirname_no_sep normpath_no_sep makedirs_exist_ok_def)

text \<open>After a successful call on a normalised path, the path itself resolves.\<close>

lemma resolve_after_make_parent_dir:
  assumes "make_parent_dir path fs = Inr fs'" and "normpath path = path"
  shows "\<exists>l. resolve fs' path = Inr l"
proof -
  from assms have mk: "makedirs_exist_ok (dirname path) fs = Inr fs'"
    by (simp add: make_parent_dir_def Let_def)
  note d = makedirs_exist_ok_isdir [OF mk]
  from d(1) d(3) obtain l where w: "walk (nodes fs') (start_of fs' (dirname path)) (split_sep (dirname path)) = Inr l"
    and l: "nodes fs' l = Some Dir"
    by (auto simp: isdir_def resolve_def split: sum.splits)
  from w have "walk (nodes fs') (start_of fs' path) (split_sep (dirname path)) = Inr l"
    using start_of_dirname [OF d(3)] by simp
  from walk_after_dirname [OF this l d(3)] obtain l' where
    "walk (nodes fs') (start_of fs' path) (split_sep path) = Inr l'" by blast
  moreover have "path \<noteq> []" using d(3) by (auto simp: dirname_def)
  ultimately show ?thesis by (simp add: resolve_def)
qed

text \<open>
  C3. The claim: for every file path \<^verbatim>\<open>make_parent_dir\<close> can be called twice without
  error, succeeds silently when the parent directory already exists, and leaves the
  directory present. Where the call succeeds this holds (\<open>make_parent_dir_isdir\<close>,
  \<open>make_parent_dir_idem\<close>, \<open>make_parent_dir_existing\<close>). For a path with no directory
  part it does not: \<^verbatim>\<open>dirname(normpath('out.txt'))\<close> is the empty string, and
  \<^verbatim>\<open>os.makedirs('', exist_ok=True)\<close> raises FileNotFoundError, although the parent
  directory, the current directory, exists and the file could be opened there. So
  \<^verbatim>\<open>write('hello', 'out.txt')\<close> fails too. The same happens for every path without
  a separator (\<open>make_parent_dir_no_directory_part\<close>).
\<close>

theorem make_parent_dir_bare_filename:
  "make_parent_dir ''out.txt'' fs_home = Inl FileNotFoundError \<and>
   isdir fs_home ''.'' \<and>
   open_w ''out.txt'' fs_home = Inr [''home'', ''out.txt''] \<and>
   write_text ''hello'' ''out.txt'' fs_home = Inl FileNotFoundError"
  by (simp add: write_text_def make_parent_dir_def normpath_def normpath_step_def dirname_def
      makedirs_exist_ok_def start_of_def fs_home_def isdir_def resolve_def open_w_def)

subsection \<open>Writing and reading a file\<close>

text \<open>Writing a file does not change how its own path resolves, so it can be read back.\<close>

lemma walk_put_file:
  "walk t cur cs = Inr l \<Longrightarrow> t k \<noteq> Some Dir \<Longrightarrow> walk (t(k \<mapsto> File c)) cur cs = Inr l"
  by (induction cs arbitrary: cur) (auto split: option.splits node.splits if_splits)

lemma open_r_after_with_open_w:
  assumes "with_open_w filename produce fs = Inr fs'"
  shows "\<exists>content. produce = Inr content \<and> open_r filename fs' = Inr content"
proof -
  from assms obtain l content where l: "open_w filename fs = Inr l" and p: "produce = Inr content"
    and fs': "fs' = put_file l content fs"
    by (auto simp: with_open_w_def split: sum.splits)
  from l have ne: "filename \<noteq> []" and w: "walk (nodes fs) (start_of fs filename) (split_sep filename) = Inr l"
    and nd: "nodes fs l \<noteq> Some Dir"
    by (auto simp: open_w_def resolve_def split: sum.splits if_splits option.splits node.splits)
  have "start_of fs' filename = start_of fs filename"
    using fs' by (simp add: put_file_def start_of_def)
  with walk_put_file [OF w nd, of content]
  have "resolve fs' filename = Inr l"
    using ne fs' by (simp add: resolve_def put_file_def)
  then have "open_r filename fs' = Inr content"
    using fs' by (simp add: open_r_def put_file_def)
  with p show ?thesis by blast
qed

lemma save_then_open_r:
  assumes "(case make_parent_dir filename fs of
              Inl e \<Rightarrow> Inl e | Inr fs1 \<Rightarrow> with_open_w filename produce fs1) = Inr fs'"
  shows "\<exists>content. produce = Inr content \<and> open_r filename fs' = Inr content"
proof -
  from assms obtain fs1 where "with_open_w filename produce fs1 = Inr fs'"
    by (auto split: sum.splits)
  then show ?thesis by (rule open_r_after_with_open_w)
qed

lemma to_tsv_unfold:
  "to_tsv to_csv df filename kw fs =
     (case make_parent_dir filename fs of
        Inl e \<Rightarrow> Inl e
      | Inr fs1 \<Rightarrow> with_open_w filename
          (to_csv ([''sep'' \<mapsto> PStr [CHR 0x09], ''index'' \<mapsto> PBool False] ++ kw) df) fs1)"
  by (cases "make_parent_dir filename fs") (simp_all add: to_tsv_def)

text \<open>
  C5. Round trip for the four formats. When the save returns, and the format's loader
  gives back \<open>v\<close> from what its serializer writes for \<open>v\<close> (the value is serializable in
  the format; for the tables, under the options the two functions pass on: tab
  separator, header row, no index, then the caller's), loading from the same path gives
  \<open>v\<close>: the load reads the file the save wrote, and reads all of what was written.
\<close>

theorem save_then_load_roundtrip:
  "(json_dump dumps v filename kw fs = Inr fs' \<and>
      (\<forall>s. dumps kw v = Inr s \<longrightarrow> loads s = Inr v) \<longrightarrow>
    json_load loads filename fs' = Inr v) \<and>
   (to_tsv to_csv df filename kw fs = Inr fs' \<and>
      (\<forall>s. to_csv ([''sep'' \<mapsto> PStr [CHR 0x09], ''index'' \<mapsto> PBool False] ++ kw) df = Inr s \<longrightarrow>
           read_csv ([''sep'' \<mapsto> PStr [CHR 0x09], ''header'' \<mapsto> PNum 0] ++ kwr) s = Inr df) \<longrightarrow>
    read_tsv read_csv filename kwr fs' = Inr df) \<and>
   (pickle_dump pdumps obj filename kw fs = Inr fs' \<and>
      (\<forall>s. pdumps kw obj = Inr s \<longrightarrow> ploads s = Inr obj) \<longrightarrow>
    pickle_load ploads filename fs' = Inr obj) \<and>
   (pack_msgpack packb msg filename fs = Inr fs' \<and>
      (\<forall>s. packb msg = Inr s \<longrightarrow> unpackb s = Inr msg) \<longrightarrow>
    unpack_msgpack unpackb filename fs' = Inr msg)"
proof -
  have 1: "json_dump dumps v filename kw fs = Inr fs' \<and>
      (\<forall>s. dumps kw v = Inr s \<longrightarrow> loads s = Inr v) \<longrightarrow>
    json_load loads filename fs' = Inr v"
    using save_then_open_r [where filename = filename and fs = fs and produce = "dumps kw v" and fs' = fs']
    by (auto simp: json_dump_def json_load_def with_open_r_def)
  have 2: "to_tsv to_csv df filename kw fs = Inr fs' \<and>
      (\<forall>s. to_csv ([''sep'' \<mapsto> PStr [CHR 0x09], ''index'' \<mapsto> PBool False] ++ kw) df = Inr s \<longrightarrow>
           read_csv ([''sep'' \<mapsto> PStr [CHR 0x09], ''header'' \<mapsto> PNum 0] ++ kwr) s = Inr df) \<longrightarrow>
    read_tsv read_csv filename kwr fs' = Inr df"
    using save_then_open_r [where filename = filename and fs = fs and fs' = fs' and
        produce = "to_csv ([''sep'' \<mapsto> PStr [CHR 0x09], ''index'' \<mapsto> PBool False] ++ kw) df"]
    by (auto simp: to_tsv_unfold read_tsv_def with_open_r_def)
  have 3: "pickle_dump pdumps obj filename kw fs = Inr fs' \<and>
      (\<forall>s. pdumps kw obj = Inr s \<longrightarrow> ploads s = Inr obj) \<longrightarrow>
    pickle_load ploads filename fs' = Inr obj"
    using save_then_open_r [where filename = filename and fs = fs and produce = "pdumps kw obj" and fs' = fs']
    by (auto simp: pickle_dump_def pickle_load_def with_open_r_def)
  have 4: "pack_msgpack packb msg filename fs = Inr fs' \<and>
      (\<forall>s. packb msg = Inr s \<longrightarrow> unpackb s = Inr msg) \<longrightarrow>
    unpack_msgpack unpackb filename fs' = Inr msg"
    using save_then_open_r [where filename = filename and fs = fs and produce = "packb msg" and fs' = fs']
    by (auto simp: pack_msgpack_def unpack_msgpack_def with_open_r_def)
  from 1 2 3 4 show ?thesis by (intro conjI)
qed

lemma make_parent_dir_res: "make_parent_dir ''res/sub/out.json'' fs_home = Inr fs_home_res"
  by (simp add: make_parent_dir_def normpath_def normpath_step_def dirname_def
      makedirs_exist_ok_def start_of_def fs_home_def fs_home_res_def)

lemma with_open_w_res:
  "with_open_w ''res/sub/out.json'' (Inr content) fs_home_res = Inr (fs_home_res_out content)"
  by (simp add: with_open_w_def open_w_def resolve_def start_of_def fs_home_res_def
      fs_home_res_out_def put_file_def)

lemma open_r_res: "open_r ''res/sub/out.json'' (fs_home_res_out content) = Inr content"
  by (simp add: open_r_def resolve_def start_of_def fs_home_res_out_def)

theorem save_then_load_roundtrip_witness:
  "json_dump (\<lambda>kw v. Inr (rev v)) ''{}'' ''res/sub/out.json'' Map.empty fs_home =
     Inr (fs_home_res_out ''}{'') \<and>
   json_load (\<lambda>s. Inr (rev s)) ''res/sub/out.json'' (fs_home_res_out ''}{'') = Inr ''{}'' \<and>
   to_tsv (\<lambda>kw v. Inr (rev v)) ''{}'' ''res/sub/out.json'' Map.empty fs_home =
     Inr (fs_home_res_out ''}{'') \<and>
   read_tsv (\<lambda>kw s. Inr (rev s)) ''res/sub/out.json'' Map.empty (fs_home_res_out ''}{'') = Inr ''{}'' \<and>
   pickle_dump (\<lambda>kw v. Inr (rev v)) ''{}'' ''res/sub/out.json'' Map.empty fs_home =
     Inr (fs_home_res_out ''}{'') \<and>
   pickle_load (\<lambda>s. Inr (rev s)) ''res/sub/out.json'' (fs_home_res_out ''}{'') = Inr ''{}'' \<and>
   pack_msgpack (\<lambda>v. Inr (rev v)) ''{}'' ''res/sub/out.json'' fs_home =
     Inr (fs_home_res_out ''}{'') \<and>
   unpack_msgpack (\<lambda>s. Inr (rev s)) ''res/sub/out.json'' (fs_home_res_out ''}{'') = Inr ''{}''"
proof -
  have j: "json_dump (\<lambda>kw v. Inr (rev v)) ''{}'' ''res/sub/out.json'' Map.empty fs_home =
     Inr (fs_home_res_out ''}{'')"
    by (simp add: json_dump_def make_parent_dir_res with_open_w_res)
  have t: "to_tsv (\<lambda>kw v. Inr (rev v)) ''{}'' ''res/sub/out.json'' Map.empty fs_home =
     Inr (fs_home_res_out ''}{'')"
    by (simp add: to_tsv_unfold make_parent_dir_res with_open_w_res)
  have p: "pickle_dump (\<lambda>kw v. Inr (rev v)) ''{}'' ''res/sub/out.json'' Map.empty fs_home =
     Inr (fs_home_res_out ''}{'')"
    by (simp add: pickle_dump_def make_parent_dir_res with_open_w_res)
  have m: "pack_msgpack (\<lambda>v. Inr (rev v)) ''{}'' ''res/sub/out.json'' fs_home =
     Inr (fs_home_res_out ''}{'')"
    by (simp add: pack_msgpack_def make_parent_dir_res with_open_w_res)
  from save_then_load_roundtrip
    [where dumps = "\<lambda>kw v. Inr (rev v)" and loads = "\<lambda>s. Inr (rev s)" and v = "''{}''"
      and to_csv = "\<lambda>kw v. Inr (rev v)" and read_csv = "\<lambda>kw s. Inr (rev s)" and df = "''{}''"
      and pdumps = "\<lambda>kw v. Inr (rev v)" and ploads = "\<lambda>s. Inr (rev s)" and obj = "''{}''"
      and packb = "\<lambda>v. Inr (rev v)" and unpackb = "\<lambda>s. Inr (rev s)" and msg = "''{}''"
      and filename = "''res/sub/out.json''" and kw = Map.empty and kwr = Map.empty
      and fs = fs_home and fs' = "fs_home_res_out ''}{''"]
  show ?thesis
    by (simp only: j t p m) auto
qed

subsection \<open>md5\<close>

text \<open>The loop invariant: what has been fed so far, then what is left, is the file.\<close>

lemma md5_chunks_all: "md5_chunks h f = h @ f"
proof (induction h f rule: md5_chunks.induct)
  case (1 hash_md5 f)
  show ?case
  proof (cases "take 4096 f = []")
    case True
    then have "f = []" by auto
    then show ?thesis by (simp add: md5_chunks.simps [of hash_md5 "[]"] f_read_def)
  next
    case False
    then have "md5_chunks hash_md5 f = md5_chunks (hash_update hash_md5 (take 4096 f)) (drop 4096 f)"
      by (simp add: md5_chunks.simps [of hash_md5 f] f_read_def)
    also have "\<dots> = hash_update hash_md5 (take 4096 f) @ drop 4096 f"
      using False by (intro "1.IH") (simp_all add: f_read_def)
    finally show ?thesis by (simp add: hash_update_def)
  qed
qed

lemma of_char_less_256: "(of_char c :: nat) < 256"
  by (cases c) (simp add: of_char_def)

lemma hex_digit_lower: "d < 16 \<Longrightarrow> hex_digit d \<in> set ''0123456789abcdef''"
proof -
  assume "d < 16"
  then have "d < length ''0123456789abcdef''" by simp
  then show ?thesis unfolding hex_digit_def by (rule nth_mem)
qed

lemma hex_byte_lower:
  assumes "x \<in> set (hex_byte c)"
  shows "x \<in> set ''0123456789abcdef''"
proof -
  have "(of_char c :: nat) div 16 < 16" using of_char_less_256 [of c] by presburger
  then have hi: "hex_digit (of_char c div 16) \<in> set ''0123456789abcdef''"
    by (rule hex_digit_lower)
  have "(of_char c :: nat) mod 16 < 16" by simp
  then have lo: "hex_digit (of_char c mod 16) \<in> set ''0123456789abcdef''"
    by (rule hex_digit_lower)
  from assms have "x = hex_digit (of_char c div 16) \<or> x = hex_digit (of_char c mod 16)"
    by (simp add: hex_byte_def)
  with hi lo show ?thesis by blast
qed

lemma hexdigest_lower:
  assumes "x \<in> set (hash_hexdigest digest h)"
  shows "x \<in> set ''0123456789abcdef''"
proof -
  from assms obtain c where "x \<in> set (hex_byte c)"
    by (auto simp: hash_hexdigest_def)
  then show ?thesis by (rule hex_byte_lower)
qed

lemma hexdigest_length: "length (hash_hexdigest digest h) = 2 * length (digest h)"
  by (induction "digest h" arbitrary: h) (simp_all add: hash_hexdigest_def hex_byte_def length_concat comp_def sum_list_triv)

text \<open>
  C6. \<^verbatim>\<open>md5\<close> reads the file in chunks of 4096 bytes, feeds each to the hash object, and
  returns the hexadecimal digest: the result is the digest of the whole content of the
  file, fed in one piece, for a file of any length; the loop ends on every file. The
  digest is written with the digits \<^verbatim>\<open>0-9a-f\<close>, two per byte.
\<close>

theorem md5_is_digest_of_whole_file:
  "md5 digest filename fs =
     (case open_r filename fs of
        Inl e \<Rightarrow> Inl e
      | Inr content \<Rightarrow> Inr (hash_hexdigest digest (hash_update hash_new content))) \<and>
   md5_chunks hash_new content = hash_update hash_new content \<and>
   (\<forall>x \<in> set (hash_hexdigest digest h). x \<in> set ''0123456789abcdef'') \<and>
   length (hash_hexdigest digest h) = 2 * length (digest h)"
proof -
  have 1: "md5 digest filename fs =
     (case open_r filename fs of
        Inl e \<Rightarrow> Inl e
      | Inr content \<Rightarrow> Inr (hash_hexdigest digest (hash_update hash_new content)))"
    by (simp add: md5_def with_open_r_def md5_chunks_all hash_update_def split: sum.splits)
  have 2: "md5_chunks hash_new content = hash_update hash_new content"
    by (simp add: md5_chunks_all hash_update_def)
  have 3: "\<forall>x \<in> set (hash_hexdigest digest h). x \<in> set ''0123456789abcdef''"
    using hexdigest_lower by blast
  have 4: "length (hash_hexdigest digest h) = 2 * length (digest h)"
    by (rule hexdigest_length)
  from 1 2 3 4 show ?thesis by (intro conjI)
qed

lemma open_r_fs_data: "open_r ''data.bin'' fs_data = Inr (replicate 5000 CHR ''a'')"
  by (simp add: open_r_def resolve_def start_of_def fs_data_def)

lemma hexdigest_take_2: "hash_hexdigest (take 2) (replicate 5000 CHR ''a'') = ''6161''"
  by (simp add: hash_hexdigest_def hex_byte_def hex_digit_def numeral_2_eq_2)

theorem md5_is_digest_of_whole_file_witness:
  "open_r ''data.bin'' fs_data = Inr (replicate 5000 CHR ''a'') \<and>
   md5 (take 2) ''data.bin'' fs_data = Inr ''6161'' \<and>
   md5_chunks hash_new (replicate 5000 CHR ''a'') = replicate 5000 CHR ''a''"
  using md5_is_digest_of_whole_file [of "take 2" "''data.bin''" fs_data "replicate 5000 CHR ''a''"]
  by (simp add: open_r_fs_data hexdigest_take_2 hash_update_def hash_new_def)

subsection \<open>Paths that are not normalised\<close>


lemma walk_lex_walk: "walk t cur cs = Inr l \<Longrightarrow> l = lex_walk cur cs"
  by (induction cs arbitrary: cur) (auto split: option.splits node.splits if_splits)

























text \<open>
  A path without \<^verbatim>\<open>..\<close> meets the condition on \<^verbatim>\<open>..\<close> in every state, and the condition
  is kept by \<^verbatim>\<open>make_parent_dir\<close>, which only adds directories. A path whose last
  component is empty or \<^verbatim>\<open>.\<close> names a directory and cannot be opened for writing.
\<close>

lemma dotdot_dirs_no_dotdot: "''..'' \<notin> set cs \<Longrightarrow> dotdot_dirs t cur cs"
  by (induction cs arbitrary: cur) auto

lemma dotdot_dirs_mono:
  assumes "\<And>l. t l = Some Dir \<Longrightarrow> t' l = Some Dir" and "dotdot_dirs t cur cs"
  shows "dotdot_dirs t' cur cs"
  using assms(2) by (induction cs arbitrary: cur) (auto simp: assms(1) split: if_splits)

lemma dotdot_dirs_after_make_parent_dir:
  assumes "make_parent_dir p fs = Inr fs'"
    and "dotdot_dirs (nodes fs) (start_of fs p) (split_sep p)"
  shows "dotdot_dirs (nodes fs') (start_of fs' p) (split_sep p)"
proof -
  from assms(1) have mk: "makedirs_exist_ok (dirname (normpath p)) fs = Inr fs'"
    by (simp add: make_parent_dir_def Let_def)
  have "start_of fs' p = start_of fs p"
    using makedirs_exist_ok_isdir(2) [OF mk] by (simp add: start_of_def)
  moreover have "nodes fs l = Some Dir \<Longrightarrow> nodes fs' l = Some Dir" for l
    using makedirs_exist_ok_frame [OF mk, of l Dir] by simp
  ultimately show ?thesis using dotdot_dirs_mono [OF _ assms(2)] by simp
qed

lemma walk_directory_path:
  "cs \<noteq> [] \<Longrightarrow> last cs = [] \<or> last cs = ''.'' \<Longrightarrow> walk t cur cs = Inr l \<Longrightarrow> t l = Some Dir"
  by (induction cs arbitrary: cur) (auto split: option.splits node.splits if_splits)

lemma open_w_directory_path:
  assumes "last (split_sep filename) = [] \<or> last (split_sep filename) = ''.''"
  shows "\<exists>e. open_w filename fs = Inl e"
proof (cases "resolve fs filename")
  case (Inl e)
  then show ?thesis by (simp add: open_w_def)
next
  case (Inr l)
  then have "walk (nodes fs) (start_of fs filename) (split_sep filename) = Inr l"
    by (simp add: resolve_def split: if_splits)
  from walk_directory_path [OF split_sep_not_Nil assms this] Inr
  show ?thesis by (simp add: open_w_def)
qed

subsection \<open>The save operations\<close>










end
